theory Spec2Isabelle
  imports Main
begin

section \<open>gwg: a webhook-triggered git mirror synchroniser (main.go)\<close>

subsection \<open>Data model\<close>

text \<open>
  The structs of main.go. Go strings are byte sequences, here \<open>string\<close>; Go's \<open>int\<close>
  fields are \<open>int\<close> (no arithmetic on them can overflow in the code modelled here);
  \<open>LastUpdate\<close> is a point in time, in nanoseconds.
\<close>

record logger =
  Format :: string
  Output :: string
  Level :: string
  Timestamp :: bool

record repo =
  URL :: string
  Path :: string
  Directory :: string
  Label :: string
  LabelType :: string
  Remote :: string
  Secret :: string
  SSHPrivKey :: string
  SSHPassPhrase :: string
  Trigger :: string
  Busy :: bool

record config =
  Listen :: string
  Port :: string
  RetryCount :: int
  RetryDelay :: int
  Initialise :: bool
  Threads :: int
  Logging :: logger
  LastUpdate :: int
  Repos :: "repo list"

text \<open>
  A run-time panic of the Go program: an index out of range, or the dereference of a
  nil pointer.
\<close>

datatype panic = IndexOutOfRange | NilDereference

subsection \<open>RepoRegistry: cleanURL and FindRepo\<close>

text \<open>
  \<^verbatim>\<open>if url[len(url)-1] == '/' { return url[:len(url)-1] }; return url\<close>.
  On the empty string the index is \<open>-1\<close> and Go panics.
\<close>

definition cleanURL :: "string \<Rightarrow> panic + string" where
  "cleanURL url =
     (if length url = 0 then Inl IndexOutOfRange
      else if url ! (length url - 1) = CHR ''/'' then Inr (take (length url - 1) url)
      else Inr url)"

text \<open>
  The \<open>range\<close> loop of \<open>FindRepo\<close>, from index \<open>r\<close> on. \<open>cleanURL(path)\<close> is
  evaluated once per iteration, inside the loop, so it is not evaluated when no
  repository is left.
\<close>

fun FindRepo_from :: "nat \<Rightarrow> repo list \<Rightarrow> string \<Rightarrow> panic + (nat \<times> bool)" where
  "FindRepo_from r [] path = Inr (0, False)"
| "FindRepo_from r (rp # rest) path =
     (case cleanURL path of
        Inl e \<Rightarrow> Inl e
      | Inr p \<Rightarrow> if Path rp = p then Inr (r, True) else FindRepo_from (Suc r) rest path)"

definition FindRepo :: "config \<Rightarrow> string \<Rightarrow> panic + (nat \<times> bool)" where
  "FindRepo c path = FindRepo_from 0 (Repos c) path"

text \<open>A configuration with the defaults of \<open>main\<close> and no repository.\<close>

definition default_config :: config where
  "default_config =
     \<lparr>Listen = ''0.0.0.0'', Port = ''5555'', RetryCount = 1, RetryDelay = 10,
      Initialise = True, Threads = 5,
      Logging = \<lparr>Format = ''text'', Output = ''stdout'', Level = ''info'', Timestamp = True\<rparr>,
      LastUpdate = 0, Repos = []\<rparr>"

definition mk_repo :: "string \<Rightarrow> string \<Rightarrow> string \<Rightarrow> string \<Rightarrow> repo" where
  "mk_repo path label labelType trigger =
     \<lparr>URL = ''git@github.com:o/r.git'', Path = path, Directory = ''/srv/r'',
      Label = label, LabelType = labelType, Remote = ''origin'', Secret = ''s'',
      SSHPrivKey = ''/k'', SSHPassPhrase = [], Trigger = trigger, Busy = False\<rparr>"

subsection \<open>RepoSyncState and SyncWorker: effects, and the answers of the outside world\<close>

text \<open>
  \<open>plumbing.Hash\<close> is a 20-byte array that the code only compares for equality; a
  hash is a number here.
\<close>

type_synonym hash = nat

datatype level = DebugLevel | InfoLevel | WarnLevel | ErrorLevel

text \<open>
  What an operation does to the outside, in order: a log line (the level and the
  message, without the formatted values and the repository context fields), a
  \<open>time.Sleep\<close> in seconds, and the calls of the ssh, go-git and os libraries with
  the arguments the code passes.
\<close>

datatype event =
    Log level string
  | Sleep int
  | NewPublicKeysFromFile string
  | PlainOpen string
  | Worktree
  | Fetch string
  | Reference string
  | TagObject hash
  | Reset hash
  | PlainClone string string string
  | Chtimes string
  | OpenFile string
  | Stat string

text \<open>
  The three results of \<open>repo.Fetch\<close> that \<open>update\<close> tells apart: \<open>err == nil\<close>,
  \<open>err == git.NoErrAlreadyUpToDate\<close>, and any other error.
\<close>

datatype fetch_result = FetchOK | NoErrAlreadyUpToDate | FetchFailed

text \<open>
  The libraries are external collaborators. A \<open>world\<close> fixes what each of their calls
  answers during one operation:
  \<^item> \<open>busy_after_sleep k\<close>: the value other goroutines have left in \<open>r.Busy\<close> when the
    \<open>k\<close>-th sleep of \<open>waitForCompletion\<close> ends (\<open>k\<close> from 0);
  \<^item> \<open>ssh_ok\<close>, \<open>open_ok\<close>, \<open>worktree_ok\<close>, \<open>clone_ok\<close>: whether the call returns no error;
  \<^item> \<open>fetch_result_at i\<close>: the result of the fetch in loop iteration \<open>i\<close>;
  \<^item> \<open>reference_res name\<close>: the hash of \<open>repo.Reference(name, true)\<close> before the
    reset, \<open>None\<close> for an error;
  \<^item> \<open>tag_object h\<close>: the \<open>Target\<close> of \<open>repo.TagObject(h)\<close>, \<open>None\<close> for an error
    (\<open>h\<close> is not an annotated tag object);
  \<^item> \<open>reset_ok commit\<close>: whether the hard reset to \<open>commit\<close> returns no error;
  \<^item> \<open>head_after_reset\<close>: the hash of \<open>HEAD\<close> read after the reset, \<open>None\<close> for an error;
  \<^item> \<open>chtimes_ok\<close>, \<open>stat_ok\<close>: whether \<open>os.Chtimes\<close> and \<open>os.Stat\<close> on the trigger
    file return no error.
\<close>

record world =
  busy_after_sleep :: "nat \<Rightarrow> bool"
  ssh_ok :: bool
  open_ok :: bool
  worktree_ok :: bool
  clone_ok :: bool
  fetch_result_at :: "int \<Rightarrow> fetch_result"
  reference_res :: "string \<Rightarrow> hash option"
  tag_object :: "hash \<Rightarrow> hash option"
  reset_ok :: "hash \<Rightarrow> bool"
  head_after_reset :: "hash option"
  chtimes_ok :: bool
  stat_ok :: bool

definition finished :: "repo \<Rightarrow> repo" where
  "finished r = r\<lparr>Busy := False\<rparr>"

text \<open>
  \<^verbatim>\<open>for { if r.Busy { warn; time.Sleep(3 * time.Second) } else { break } }\<close>.
  The loop has no bound: it returns only if some read of \<open>r.Busy\<close> gives false, so
  not returning is the value \<open>None\<close>. \<open>k\<close> counts the sleeps and \<open>acc\<close> collects the
  events so far.
\<close>

partial_function (option)
  waitForCompletion :: "(nat \<Rightarrow> bool) \<Rightarrow> nat \<Rightarrow> repo \<Rightarrow> event list \<Rightarrow> (repo \<times> event list) option"
where
  "waitForCompletion env k r acc =
     (if Busy r
      then waitForCompletion env (Suc k) (r\<lparr>Busy := env k\<rparr>)
             (acc @ [Log WarnLevel ''Repo is in the middle of an update, waiting...'', Sleep 3])
      else Some (r, acc))"

definition isEmpty :: "string \<Rightarrow> bool" where
  "isEmpty field = (if length field = 0 then True else False)"

definition HasTrigger :: "repo \<Rightarrow> bool" where
  "HasTrigger r = (if isEmpty (Trigger r) then False else True)"

definition HasSecret :: "repo \<Rightarrow> bool" where
  "HasSecret r = (if isEmpty (Secret r) then False else True)"

definition touchTrigger :: "world \<Rightarrow> repo \<Rightarrow> event list" where
  "touchTrigger w r =
     (if HasTrigger r then
        [Chtimes (Trigger r)] @
        (if \<not> chtimes_ok w then
           [Log ErrorLevel ''Failed to update trigger file, attempting to create...'',
            OpenFile (Trigger r), Stat (Trigger r)] @
           (if \<not> stat_ok w then [Log ErrorLevel ''Failed to create trigger file''] else []) @
           [Log InfoLevel ''Successfully created trigger file'']
         else [Log InfoLevel ''Successfully updated trigger file''])
      else [])"

subsubsection \<open>Clone\<close>

definition clone_ref :: "repo \<Rightarrow> string" where
  "clone_ref r =
     (if LabelType r = ''tag'' then ''refs/tags/'' @ Label r else ''refs/heads/'' @ Label r)"

text \<open>The body of \<open>clone\<close> from the ssh setup on (lines 122 to 151).\<close>

definition clone_body :: "world \<Rightarrow> repo \<Rightarrow> event list" where
  "clone_body w r =
     [NewPublicKeysFromFile (SSHPrivKey r)] @
     (if \<not> ssh_ok w then [Log ErrorLevel ''Failed to setup ssh auth'']
      else
        [Log DebugLevel ''Clone reference'',
         PlainClone (Directory r) (URL r) (clone_ref r)] @
        (if \<not> clone_ok w then [Log ErrorLevel ''Failed to clone repository'']
         else [Log InfoLevel ''Cloned repository''] @ touchTrigger w r))"

text \<open>
  What another goroutine can see of one run of \<open>clone\<close> or \<open>update\<close>: the
  repository record from \<open>r.Busy = true\<close> until the body returns (the body does not
  write to \<open>r\<close>), the return statement by which the body is left, the record after
  the deferred \<open>finished\<close>, and the events in order.
\<close>

record 'p run =
  held :: repo
  exit_by :: 'p
  final :: repo
  events :: "event list"

text \<open>
  The return statements of \<open>clone\<close>: line 125, line 146, and the end of the function
  after \<open>touchTrigger\<close>.
\<close>

datatype clone_exit = CloneSSHAuthFailure | CloneFailure | CloneSuccess

definition clone_exit_of :: "world \<Rightarrow> repo \<Rightarrow> clone_exit" where
  "clone_exit_of w r =
     (if \<not> ssh_ok w then CloneSSHAuthFailure
      else if \<not> clone_ok w then CloneFailure
      else CloneSuccess)"

text \<open>The last event before each return statement.\<close>

fun clone_last_event :: "world \<Rightarrow> repo \<Rightarrow> clone_exit \<Rightarrow> event" where
  "clone_last_event w r CloneSSHAuthFailure = Log ErrorLevel ''Failed to setup ssh auth''"
| "clone_last_event w r CloneFailure = Log ErrorLevel ''Failed to clone repository''"
| "clone_last_event w r CloneSuccess =
     last (Log InfoLevel ''Cloned repository'' # touchTrigger w r)"

text \<open>
  \<open>clone\<close>: \<open>defer r.finished()\<close> (line 112), the wait (line 120), \<open>r.Busy = true\<close>
  (line 121), the body; the deferred call runs when the body returns, by whichever
  return statement. The result is \<open>None\<close> when the wait never ends.
\<close>

definition clone_run :: "world \<Rightarrow> repo \<Rightarrow> clone_exit run option" where
  "clone_run w r =
     (case waitForCompletion (busy_after_sleep w) 0 r [] of
        None \<Rightarrow> None
      | Some (r1, evs) \<Rightarrow>
          (let r2 = r1\<lparr>Busy := True\<rparr> in
           Some \<lparr>held = r2, exit_by = clone_exit_of w r2, final = finished r2,
                 events = evs @ clone_body w r2\<rparr>))"

text \<open>
  What \<open>clone\<close> leaves behind: the repository record after the operation and the
  events in order.
\<close>

definition clone :: "world \<Rightarrow> repo \<Rightarrow> (repo \<times> event list) option" where
  "clone w r = map_option (\<lambda>x. (final x, events x)) (clone_run w r)"

subsubsection \<open>Update\<close>

text \<open>
  How the fetch loop \<^verbatim>\<open>for i := 0; i < C.RetryCount; i++\<close> is left: by \<open>break\<close>
  (\<open>err == nil\<close>), by \<open>return\<close> (already up to date), or because the condition
  \<open>i < C.RetryCount\<close> is false.
\<close>

datatype loop_exit = LoopBreak | LoopReturn | LoopExhausted

function fetch_loop :: "config \<Rightarrow> world \<Rightarrow> repo \<Rightarrow> int \<Rightarrow> loop_exit \<times> event list" where
  "fetch_loop C w r i =
     (if i < RetryCount C then
        (case fetch_result_at w i of
           FetchOK \<Rightarrow> (LoopBreak, [Log InfoLevel ''Fetch attempt: '', Fetch (Remote r)])
         | NoErrAlreadyUpToDate \<Rightarrow>
             (LoopReturn, [Log InfoLevel ''Fetch attempt: '', Fetch (Remote r),
                           Log InfoLevel ''No new commits''])
         | FetchFailed \<Rightarrow>
             (case fetch_loop C w r (i + 1) of
                (ex, evs) \<Rightarrow>
                  (ex, [Log InfoLevel ''Fetch attempt: '', Fetch (Remote r),
                        Log ErrorLevel ''Failed to fetch updates'',
                        Sleep (RetryDelay C)] @ evs)))
      else (LoopExhausted, []))"
  by pat_completeness auto
termination
  by (relation "measure (\<lambda>(C, w, r, i). nat (RetryCount C - i))") auto

definition update_ref :: "repo \<Rightarrow> string" where
  "update_ref r =
     (if LabelType r = ''tag'' then ''refs/tags/'' @ Label r
      else ''refs/remotes/'' @ Remote r @ ''/'' @ Label r)"

text \<open>Lines 252 to 268: after a reset without error, re-read \<open>HEAD\<close> and compare.\<close>

definition confirm_reset :: "world \<Rightarrow> repo \<Rightarrow> hash \<Rightarrow> event list" where
  "confirm_reset w r targetHash =
     [Log InfoLevel ''Hard reset successful, confirming changes....'', Reference ''HEAD''] @
     (case head_after_reset w of
        None \<Rightarrow> [Log ErrorLevel ''Failed to get local HEAD reference'']
      | Some headHash \<Rightarrow>
          if headHash = targetHash
          then [Log InfoLevel ''Changes confirmed, latest hash''] @ touchTrigger w r
          else [Log ErrorLevel ''Something went wrong, hashes don't match!'',
                Log DebugLevel ''Remote hash'', Log DebugLevel ''Local hash''])"

text \<open>
  Lines 235 to 251: read the local \<open>HEAD\<close>, compare \<open>remoteRef.Hash()\<close> with it,
  and hard-reset to \<open>targetHash\<close>.
\<close>

definition compare_and_reset :: "world \<Rightarrow> repo \<Rightarrow> hash \<Rightarrow> hash \<Rightarrow> event list" where
  "compare_and_reset w r remoteHash targetHash =
     [Reference ''HEAD''] @
     (case reference_res w ''HEAD'' of
        None \<Rightarrow> [Log ErrorLevel ''Failed to get local reference for HEAD'']
      | Some localHash \<Rightarrow>
          if remoteHash = localHash then [Log WarnLevel ''Already up to date'']
          else
            [Reset targetHash] @
            (if \<not> reset_ok w targetHash then [Log ErrorLevel ''Failed to hard reset work tree'']
             else confirm_reset w r targetHash))"

text \<open>
  Lines 210 to 233: the code after the fetch loop. The reference is resolved,
  \<open>targetHash\<close> is its hash, replaced by the tag's target when \<open>TagObject\<close> returns no
  error.
\<close>

definition after_fetch :: "world \<Rightarrow> repo \<Rightarrow> event list" where
  "after_fetch w r =
     [Log InfoLevel ''Fetched new updates'', Reference (update_ref r)] @
     (case reference_res w (update_ref r) of
        None \<Rightarrow> [Log ErrorLevel ''Failed to get reference'']
      | Some remoteHash \<Rightarrow>
          [TagObject remoteHash] @
          (case tag_object w remoteHash of
             Some target \<Rightarrow>
               [Log InfoLevel ''Annotated tag hash'', Log InfoLevel ''Annotated tag target hash''] @
               compare_and_reset w r remoteHash target
           | None \<Rightarrow> compare_and_reset w r remoteHash remoteHash))"

text \<open>
  \<open>targetHash\<close> after lines 226 to 233, for the hash \<open>rh\<close> of the tracked reference:
  the tag's target when \<open>rh\<close> is an annotated tag object, \<open>rh\<close> itself otherwise.
\<close>

definition target_of :: "world \<Rightarrow> hash \<Rightarrow> hash" where
  "target_of w rh = (case tag_object w rh of Some t \<Rightarrow> t | None \<Rightarrow> rh)"

text \<open>
  The body of \<open>update\<close> from the ssh setup on (lines 167 to 268). The code after the
  loop runs when the loop is left by \<open>break\<close> and when its condition fails; only the
  \<open>return\<close> inside the loop skips it.
\<close>

definition update_body :: "config \<Rightarrow> world \<Rightarrow> repo \<Rightarrow> event list" where
  "update_body C w r =
     [NewPublicKeysFromFile (SSHPrivKey r)] @
     (if \<not> ssh_ok w then [Log ErrorLevel ''Failed to setup ssh auth'']
      else
        [PlainOpen (Directory r)] @
        (if \<not> open_ok w then [Log ErrorLevel ''Failed to open local git repository'']
         else
           [Worktree] @
           (if \<not> worktree_ok w then [Log ErrorLevel ''Failed to open work tree for repository'']
            else
              (case fetch_loop C w r 0 of
                 (LoopReturn, evs) \<Rightarrow> evs
               | (LoopBreak, evs) \<Rightarrow> evs @ after_fetch w r
               | (LoopExhausted, evs) \<Rightarrow> evs @ after_fetch w r))))"

text \<open>
  The return statements of \<open>update\<close>: lines 170, 176 and 182 (ssh, open, worktree),
  202 (already up to date), 223 (tracked reference), 238 (\<open>HEAD\<close>), 243 (nothing to
  do), 250 (reset), 256 (\<open>HEAD\<close> after the reset), 265 (mismatch), and the end of the
  function after \<open>touchTrigger\<close>. A failing fetch is no return statement: the loop
  goes on or ends, and the code after it runs.
\<close>

datatype update_exit =
    SSHAuthFailure | OpenFailure | WorktreeFailure | AlreadyUpToDate | ReferenceFailure
  | HeadFailure | NothingToDo | ResetFailure | HeadAfterResetFailure
  | VerificationMismatch | FullSuccess

definition update_exit_of :: "config \<Rightarrow> world \<Rightarrow> repo \<Rightarrow> update_exit" where
  "update_exit_of C w r =
     (if \<not> ssh_ok w then SSHAuthFailure
      else if \<not> open_ok w then OpenFailure
      else if \<not> worktree_ok w then WorktreeFailure
      else
        (case fst (fetch_loop C w r 0) of
           LoopReturn \<Rightarrow> AlreadyUpToDate
         | ex \<Rightarrow>
             (case reference_res w (update_ref r) of
                None \<Rightarrow> ReferenceFailure
              | Some remoteHash \<Rightarrow>
                  (case reference_res w ''HEAD'' of
                     None \<Rightarrow> HeadFailure
                   | Some localHash \<Rightarrow>
                       if remoteHash = localHash then NothingToDo
                       else if \<not> reset_ok w (target_of w remoteHash) then ResetFailure
                       else
                         (case head_after_reset w of
                            None \<Rightarrow> HeadAfterResetFailure
                          | Some headHash \<Rightarrow>
                              if headHash = target_of w remoteHash then FullSuccess
                              else VerificationMismatch)))))"

text \<open>The last event before each return statement.\<close>

fun update_last_event :: "world \<Rightarrow> repo \<Rightarrow> update_exit \<Rightarrow> event" where
  "update_last_event w r SSHAuthFailure = Log ErrorLevel ''Failed to setup ssh auth''"
| "update_last_event w r OpenFailure = Log ErrorLevel ''Failed to open local git repository''"
| "update_last_event w r WorktreeFailure =
     Log ErrorLevel ''Failed to open work tree for repository''"
| "update_last_event w r AlreadyUpToDate = Log InfoLevel ''No new commits''"
| "update_last_event w r ReferenceFailure = Log ErrorLevel ''Failed to get reference''"
| "update_last_event w r HeadFailure =
     Log ErrorLevel ''Failed to get local reference for HEAD''"
| "update_last_event w r NothingToDo = Log WarnLevel ''Already up to date''"
| "update_last_event w r ResetFailure = Log ErrorLevel ''Failed to hard reset work tree''"
| "update_last_event w r HeadAfterResetFailure =
     Log ErrorLevel ''Failed to get local HEAD reference''"
| "update_last_event w r VerificationMismatch = Log DebugLevel ''Local hash''"
| "update_last_event w r FullSuccess =
     last (Log InfoLevel ''Changes confirmed, latest hash'' # touchTrigger w r)"

text \<open>
  \<open>update\<close>: \<open>defer r.finished()\<close> (line 156), the wait (line 165),
  \<open>r.Busy = true\<close> (line 166), the body; the deferred call runs when the body
  returns, by whichever return statement. The result is \<open>None\<close> when the wait never
  ends.
\<close>

definition update_run :: "config \<Rightarrow> world \<Rightarrow> repo \<Rightarrow> update_exit run option" where
  "update_run C w r =
     (case waitForCompletion (busy_after_sleep w) 0 r [] of
        None \<Rightarrow> None
      | Some (r1, evs) \<Rightarrow>
          (let r2 = r1\<lparr>Busy := True\<rparr> in
           Some \<lparr>held = r2, exit_by = update_exit_of C w r2, final = finished r2,
                 events = evs @ update_body C w r2\<rparr>))"

text \<open>
  What \<open>update\<close> leaves behind: the repository record after the operation and the
  events in order.
\<close>

definition update :: "config \<Rightarrow> world \<Rightarrow> repo \<Rightarrow> (repo \<times> event list) option" where
  "update C w r = map_option (\<lambda>x. (final x, events x)) (update_run C w r)"

text \<open>Kinds of events the properties speak about.\<close>

fun is_fetch :: "event \<Rightarrow> bool" where
  "is_fetch (Fetch rem) = True"
| "is_fetch e = False"

fun is_reference :: "event \<Rightarrow> bool" where
  "is_reference (Reference name) = True"
| "is_reference (TagObject h) = True"
| "is_reference e = False"

fun is_reset :: "event \<Rightarrow> bool" where
  "is_reset (Reset h) = True"
| "is_reset e = False"

text \<open>Touching the trigger file: changing its times or creating it.\<close>

fun is_touch :: "event \<Rightarrow> bool" where
  "is_touch (Chtimes f) = True"
| "is_touch (OpenFile f) = True"
| "is_touch e = False"

text \<open>
  A world in which every call succeeds: the flag is free, the fetch brings new
  commits, the tracked reference is at hash 7 and \<open>HEAD\<close> at 5 before the reset and at
  7 after it; no hash is an annotated tag.
\<close>

definition good_world :: world where
  "good_world =
     \<lparr>busy_after_sleep = (\<lambda>k. False), ssh_ok = True, open_ok = True, worktree_ok = True,
      clone_ok = True, fetch_result_at = (\<lambda>i. FetchOK),
      reference_res = (\<lambda>name. if name = ''HEAD'' then Some 5 else Some 7),
      tag_object = (\<lambda>h. None), reset_ok = (\<lambda>h. True), head_after_reset = Some 7,
      chtimes_ok = True, stat_ok = True\<rparr>"

text \<open>
  The events of \<open>update\<close> from the hard reset to \<open>t\<close> on, when the reset returns no
  error and \<open>HEAD\<close> is then at another hash (lines 247 to 265).
\<close>

definition mismatch_suffix :: "hash \<Rightarrow> event list" where
  "mismatch_suffix t =
     [Reset t, Log InfoLevel ''Hard reset successful, confirming changes....'',
      Reference ''HEAD'', Log ErrorLevel ''Something went wrong, hashes don't match!'',
      Log DebugLevel ''Remote hash'', Log DebugLevel ''Local hash'']"

text \<open>Example inputs. \<open>hook_branch\<close> tracks a branch, \<open>hook_tag\<close> the tag \<open>v1\<close>.\<close>

definition hook_branch :: repo where
  "hook_branch = mk_repo ''/hook'' ''master'' ''branch'' ''/tmp/t''"

definition hook_tag :: repo where
  "hook_tag = mk_repo ''/hook'' ''v1'' ''tag'' ''/tmp/t''"

text \<open>As \<open>good_world\<close>, but every fetch fails with a genuine error.\<close>

definition failing_fetch_world :: world where
  "failing_fetch_world = good_world\<lparr>fetch_result_at := (\<lambda>i. FetchFailed)\<rparr>"

text \<open>
  \<open>refs/tags/v1\<close> points at the annotated tag object 100, whose target is commit 42.
  In \<open>tag_at_head_world\<close> the local \<open>HEAD\<close> is already at commit 42; in
  \<open>tag_moved_world\<close> it is at commit 5 before the reset.
\<close>

definition tag_at_head_world :: world where
  "tag_at_head_world =
     good_world\<lparr>reference_res := (\<lambda>name. if name = ''HEAD'' then Some 42
                                     else if name = ''refs/tags/v1'' then Some 100 else None),
                tag_object := (\<lambda>h. if h = 100 then Some 42 else None),
                head_after_reset := Some 42\<rparr>"

definition tag_moved_world :: world where
  "tag_moved_world =
     good_world\<lparr>reference_res := (\<lambda>name. if name = ''HEAD'' then Some 5
                                     else if name = ''refs/tags/v1'' then Some 100 else None),
                tag_object := (\<lambda>h. if h = 100 then Some 42 else None),
                head_after_reset := Some 42\<rparr>"

text \<open>As \<open>good_world\<close>, but after the reset to 7 \<open>HEAD\<close> is still at 5.\<close>

definition mismatch_world :: world where
  "mismatch_world = good_world\<lparr>head_after_reset := Some 5\<rparr>"

text \<open>
  The flag is taken for the first sleep and free afterwards; the first fetch fails and
  the second reports that there is nothing new.
\<close>

definition up_to_date_world :: world where
  "up_to_date_world =
     good_world\<lparr>busy_after_sleep := (\<lambda>k. k < 1),
                fetch_result_at := (\<lambda>i. if i < 1 then FetchFailed else NoErrAlreadyUpToDate)\<rparr>"

subsection \<open>Webhook handler\<close>

text \<open>
  What \<open>handleFunc\<close> reads of a request: \<open>r.URL.Path\<close>; whether
  \<open>github.ValidatePayload\<close> accepts the body under a given secret; and the event that
  \<open>github.ParseWebHook\<close> returns, \<open>None\<close> for an error. Of a push event the handler
  reads \<open>*e.Repo.SSHURL\<close> and \<open>*e.Ref\<close>, both through pointers: \<open>None\<close> stands for
  a nil pointer on the way.
\<close>

datatype webhook = PushEvent "string option" "string option" | OtherEvent

record request =
  url_path :: string
  payload_ok :: "string \<Rightarrow> bool"
  parsed :: "webhook option"

text \<open>
  A job: the source holds a pointer \<open>&C.Repos[idx]\<close>, the model the index \<open>idx\<close>.
\<close>

record job =
  repo_idx :: nat
  jobType :: string

definition TrimPrefix :: "string \<Rightarrow> string \<Rightarrow> string" where
  "TrimPrefix s prefix =
     (if take (length prefix) s = prefix then drop (length prefix) s else s)"

text \<open>
  \<open>handleFunc\<close> (lines 352 to 388): its log lines and the jobs it sends to the queue.
  It calls \<open>C.FindRepo(r.URL.Path)\<close> first and recovers from no panic, so a panic of
  \<open>FindRepo\<close> is a panic of the handler. Both branches of the test of a push event
  dereference \<open>e.Repo.SSHURL\<close> and \<open>e.Ref\<close>. (The send to the queue blocks while
  the queue is full; the model gives the job that is sent.)
\<close>

definition handleFunc :: "config \<Rightarrow> request \<Rightarrow> panic + (event list \<times> job list)" where
  "handleFunc c rq =
     (case FindRepo c (url_path rq) of
        Inl e \<Rightarrow> Inl e
      | Inr (idx, ok) \<Rightarrow>
          if \<not> ok then Inr ([Log WarnLevel ''Repository not found for path''], [])
          else if \<not> idx < length (Repos c) then Inl IndexOutOfRange
          else if \<not> payload_ok rq (Secret (Repos c ! idx))
          then Inr ([Log ErrorLevel ''Error validating request body''], [])
          else
            (case parsed rq of
               None \<Rightarrow> Inr ([Log ErrorLevel ''Could not parse webhook''], [])
             | Some OtherEvent \<Rightarrow> Inr ([Log WarnLevel ''Unknown event type''], [])
             | Some (PushEvent sshurl ref) \<Rightarrow>
                 (case sshurl of
                    None \<Rightarrow> Inl NilDereference
                  | Some u \<Rightarrow>
                      (case ref of
                         None \<Rightarrow> Inl NilDereference
                       | Some rf \<Rightarrow>
                           if URL (Repos c ! idx) = u
                              \<and> (Label (Repos c ! idx) = TrimPrefix rf ''refs/heads/''
                                 \<or> Label (Repos c ! idx) = TrimPrefix rf ''refs/tags/'')
                           then Inr ([], [\<lparr>repo_idx = idx, jobType = ''update''\<rparr>])
                           else Inr ([Log WarnLevel
                                        ''Push event did not match our configuration''],
                                     [])))))"

text \<open>A push to \<open>master\<close> of the example repository, sent to the path \<open>path\<close>.\<close>

definition push_request :: "string \<Rightarrow> request" where
  "push_request path =
     \<lparr>url_path = path, payload_ok = (\<lambda>secret. True),
      parsed = Some (PushEvent (Some ''git@github.com:o/r.git'') (Some ''refs/heads/master''))\<rparr>"

subsection \<open>Goroutines of clone and update on one repository\<close>

text \<open>
  Where a goroutine that runs \<open>clone\<close> or \<open>update\<close> stands: at the head of the loop of
  \<open>waitForCompletion\<close>, about to read \<open>r.Busy\<close> (line 102); in \<open>time.Sleep\<close> (line
  104); out of the loop and about to execute \<open>r.Busy = true\<close> (lines 121, 166); in the
  rest of the body, its git work (lines 122 to 151, 167 to 268); returned, the deferred
  \<open>finished\<close> having run.
\<close>

datatype pc = AtLoopHead | Sleeping | AtSetBusy | Working | Returned

text \<open>
  One step of one goroutine on the shared flag \<open>r.Busy\<close>. Reading the flag and setting
  it are two statements of the source, so they are two steps.
\<close>

fun goroutine_step :: "bool \<Rightarrow> pc \<Rightarrow> bool \<times> pc" where
  "goroutine_step b AtLoopHead = (b, if b then Sleeping else AtSetBusy)"
| "goroutine_step b Sleeping = (b, AtLoopHead)"
| "goroutine_step b AtSetBusy = (True, Working)"
| "goroutine_step b Working = (False, Returned)"
| "goroutine_step b Returned = (b, Returned)"

text \<open>The scheduler lets goroutine \<open>i\<close> take a step; a schedule is a list of such choices.\<close>

definition sched_step :: "bool \<times> pc list \<Rightarrow> nat \<Rightarrow> bool \<times> pc list" where
  "sched_step s i =
     (case s of (b, ps) \<Rightarrow>
        if i < length ps
        then (case goroutine_step b (ps ! i) of (b', p') \<Rightarrow> (b', ps[i := p']))
        else (b, ps))"

definition run_schedule :: "nat list \<Rightarrow> bool \<times> pc list \<Rightarrow> bool \<times> pc list" where
  "run_schedule sched s = foldl sched_step s sched"

text \<open>The number of goroutines that are executing their clone or update body.\<close>

definition executing :: "bool \<times> pc list \<Rightarrow> nat" where
  "executing s = length (filter (\<lambda>p. p = Working) (snd s))"

subsection \<open>Dispatcher and ConfigCoordinator\<close>

text \<open>
  \<open>setRepoDefaults\<close>, for one repository and for the list. \<open>setLogging\<close>,
  \<open>validatePathsUniq\<close> and \<open>validateLabelType\<close> only configure the logger and write
  log lines; they change no field modelled here.
\<close>

definition repo_defaults :: "repo \<Rightarrow> repo" where
  "repo_defaults r =
     (let r1 = (if LabelType r = [] then r\<lparr>LabelType := ''branch''\<rparr> else r);
          r2 = (if Label r1 = [] then r1\<lparr>Label := ''master''\<rparr> else r1)
      in if Remote r2 = [] then r2\<lparr>Remote := ''origin''\<rparr> else r2)"

definition setRepoDefaults :: "config \<Rightarrow> config" where
  "setRepoDefaults c = c\<lparr>Repos := map repo_defaults (Repos c)\<rparr>"

text \<open>
  \<open>refreshTasks\<close> at time \<open>now\<close>: the configuration with its defaults and
  \<open>LastUpdate\<close>, and the value it writes to \<open>DataPasser.threads\<close>.
\<close>

definition refreshTasks :: "int \<Rightarrow> config \<Rightarrow> config \<times> int" where
  "refreshTasks now c = ((setRepoDefaults c)\<lparr>LastUpdate := now\<rparr>, Threads c)"

text \<open>
  The state shared by \<open>main\<close>, the dispatcher and the configuration callback: the global
  \<open>C\<close>, whether the global \<open>mutex\<close> is locked, the field \<open>threads\<close> of the one
  \<open>DataPasser\<close>, the capacity of the channel \<open>sem\<close> that \<open>process\<close> made when it was
  started, and the number of elements in \<open>sem\<close>: the job goroutines between their
  \<open>sem <- struct{}{}\<close> and their \<open><-sem\<close>, which are the jobs that execute.
\<close>

record system =
  global_C :: config
  mutex :: bool
  passer_threads :: int
  sem_cap :: int
  sem_len :: nat

text \<open>
  \<open>main\<close> up to \<open>go process(passer.jobs, passer.threads)\<close>: \<open>process\<close> receives
  the value of \<open>passer.threads\<close> at that moment and makes \<open>sem\<close> with it, once.
  (With a negative value \<open>make\<close> panics; with zero the channel is unbuffered and no
  send to it ever goes through, as in \<open>acquire\<close> below.)
\<close>

definition main_start :: "int \<Rightarrow> config \<Rightarrow> system" where
  "main_start now c0 =
     (case refreshTasks now c0 of
        (c, th) \<Rightarrow> \<lparr>global_C = c, mutex = False, passer_threads = th, sem_cap = th, sem_len = 0\<rparr>)"

text \<open>
  A job goroutine sends to \<open>sem\<close>: the send goes through while the channel holds fewer
  elements than its capacity and blocks otherwise (the state is then unchanged). After
  its job it receives from \<open>sem\<close>.
\<close>

definition acquire :: "system \<Rightarrow> system" where
  "acquire s = (if int (sem_len s) < sem_cap s then s\<lparr>sem_len := sem_len s + 1\<rparr> else s)"

definition release :: "system \<Rightarrow> system" where
  "release s = (if 0 < sem_len s then s\<lparr>sem_len := sem_len s - 1\<rparr> else s)"

text \<open>
  The wait of the callback for idle repositories (lines 571 to 591): \<open>repoBusy\<close> says
  whether some repository of \<open>C.Repos\<close> is busy at this poll, \<open>env k\<close> whether one is
  after the \<open>k\<close>-th sleep of five seconds. The result is the number of sleeps; the loop
  has no bound.
\<close>

partial_function (option) wait_idle :: "(nat \<Rightarrow> bool) \<Rightarrow> nat \<Rightarrow> bool \<Rightarrow> nat option" where
  "wait_idle env k repoBusy = (if repoBusy then wait_idle env (Suc k) (env k) else Some k)"

text \<open>
  How one run of the \<open>OnConfigChange\<close> callback ends: it never gets past
  \<open>mutex.Lock()\<close>; it returns at the debounce test; it installs the new configuration;
  or \<open>log.Fatalf\<close> ends the process.
\<close>

datatype callback = BlockedOnLock | Debounced | Installed | Fatal

text \<open>
  The callback at time \<open>now\<close> (nanoseconds); \<open>unmarshalled\<close> is the result of
  \<open>viper.Unmarshal(&newC)\<close>, \<open>None\<close> for an error. The file watcher runs the
  callbacks one after the other, and \<open>mutex\<close> is used nowhere else, so a callback that
  finds the mutex locked waits for ever. The \<open>return\<close> at the debounce test (line 554)
  comes after \<open>mutex.Lock()\<close> and before \<open>mutex.Unlock()\<close> (line 593). The result is
  \<open>None\<close> when the wait for idle repositories never ends.
\<close>

definition onConfigChange ::
  "(nat \<Rightarrow> bool) \<Rightarrow> int \<Rightarrow> config option \<Rightarrow> system \<Rightarrow> (callback \<times> system) option" where
  "onConfigChange env now unmarshalled s =
     (if mutex s then Some (BlockedOnLock, s)
      else
        (let s1 = s\<lparr>mutex := True\<rparr> in
         if now - LastUpdate (global_C s1) < 250229410 then Some (Debounced, s1)
         else
           (case unmarshalled of
              None \<Rightarrow> Some (Fatal, s1)
            | Some newC0 \<Rightarrow>
                (case refreshTasks now newC0 of
                   (newC, th) \<Rightarrow>
                     (case wait_idle env 0 (list_ex Busy (Repos (global_C s1))) of
                        None \<Rightarrow> None
                      | Some k \<Rightarrow>
                          Some (Installed,
                                s1\<lparr>global_C := newC, passer_threads := th,
                                   mutex := False\<rparr>))))))"

text \<open>
  A sequence of file-change notifications, each with its time and the configuration
  read from the file, with no repository busy meanwhile: how each callback ends, and
  the state after the last.
\<close>

fun notifications :: "(int \<times> config option) list \<Rightarrow> system \<Rightarrow> (callback list \<times> system) option" where
  "notifications [] s = Some ([], s)"
| "notifications ((now, f) # rest) s =
     (case onConfigChange (\<lambda>k. False) now f s of
        None \<Rightarrow> None
      | Some (cb, s1) \<Rightarrow>
          (case notifications rest s1 of
             None \<Rightarrow> None
           | Some (cbs, s2) \<Rightarrow> Some (cb # cbs, s2)))"

section \<open>Properties\<close>

declare fetch_loop.simps [simp del]

subsection \<open>waitForCompletion\<close>

lemma wait_result:
  assumes "waitForCompletion env k r acc = Some (r1, evs)"
  shows "\<not> Busy r1 \<and> r1 = r\<lparr>Busy := False\<rparr>
         \<and> (\<exists>n. evs = acc @ concat (replicate n
               [Log WarnLevel ''Repo is in the middle of an update, waiting...'', Sleep 3]))"
proof -
  let ?P = "\<lambda>(env::nat \<Rightarrow> bool) (k::nat) r acc res.
      \<not> Busy (fst res) \<and> fst res = r\<lparr>Busy := False\<rparr>
      \<and> (\<exists>n. snd res = acc @ concat (replicate n
               [Log WarnLevel ''Repo is in the middle of an update, waiting...'', Sleep 3]))"
  have "?P env k r acc (r1, evs)"
  proof (rule waitForCompletion.raw_induct [where P = ?P, OF _ assms])
    fix w env k r acc res
    assume IH: "\<And>env k r acc res. w env k r acc = Some res \<Longrightarrow> ?P env k r acc res"
      and eq: "(if Busy r
           then w env (Suc k) (r\<lparr>Busy := env k\<rparr>)
                 (acc @ [Log WarnLevel ''Repo is in the middle of an update, waiting...'', Sleep 3])
           else Some (r, acc)) = Some res"
    show "?P env k r acc res"
    proof (cases "Busy r")
      case False
      with eq have "res = (r, acc)" by simp
      with False show ?thesis
        by (auto intro: exI [of _ 0])
    next
      case True
      with eq have "w env (Suc k) (r\<lparr>Busy := env k\<rparr>)
          (acc @ [Log WarnLevel ''Repo is in the middle of an update, waiting...'', Sleep 3])
          = Some res" by simp
      from IH [OF this] obtain n where
        a: "\<not> Busy (fst res)" and b: "fst res = r\<lparr>Busy := False\<rparr>"
        and c: "snd res = (acc @ [Log WarnLevel ''Repo is in the middle of an update, waiting...'', Sleep 3])
             @ concat (replicate n
               [Log WarnLevel ''Repo is in the middle of an update, waiting...'', Sleep 3])"
        by auto
      from c have "snd res = acc @ concat (replicate (Suc n)
               [Log WarnLevel ''Repo is in the middle of an update, waiting...'', Sleep 3])"
        by simp
      with a b show ?thesis by blast
    qed
  qed
  then show ?thesis by simp
qed

lemma wait_free: "\<not> Busy r \<Longrightarrow> waitForCompletion env k r acc = Some (r, acc)"
  by (subst waitForCompletion.simps) simp

lemma wait_returns:
  "\<not> env (k + j) \<Longrightarrow> \<exists>res. waitForCompletion env k r acc = Some res"
proof (induction j arbitrary: k r acc)
  case 0
  show ?case
  proof (cases "Busy r")
    case False
    then show ?thesis by (simp add: wait_free)
  next
    case True
    have "waitForCompletion env (Suc k) (r\<lparr>Busy := env k\<rparr>)
          (acc @ [Log WarnLevel ''Repo is in the middle of an update, waiting...'', Sleep 3])
        = Some (r\<lparr>Busy := env k\<rparr>,
          acc @ [Log WarnLevel ''Repo is in the middle of an update, waiting...'', Sleep 3])"
      using 0 by (intro wait_free) simp
    with True show ?thesis
      by (subst waitForCompletion.simps) simp
  qed
next
  case (Suc j)
  show ?case
  proof (cases "Busy r")
    case False
    then show ?thesis by (simp add: wait_free)
  next
    case True
    have "\<not> env (Suc k + j)" using Suc.prems by simp
    from Suc.IH [OF this] obtain res where
      "waitForCompletion env (Suc k) (r\<lparr>Busy := env k\<rparr>)
          (acc @ [Log WarnLevel ''Repo is in the middle of an update, waiting...'', Sleep 3])
        = Some res" by blast
    with True show ?thesis
      by (subst waitForCompletion.simps) simp
  qed
qed

lemma wait_returns_only_if:
  assumes "waitForCompletion env k r acc = Some res"
  shows "\<not> Busy r \<or> (\<exists>j. \<not> env (k + j))"
proof -
  let ?P = "\<lambda>(env::nat \<Rightarrow> bool) (k::nat) (r::repo) (acc::event list) (res::repo \<times> event list).
      \<not> Busy r \<or> (\<exists>j. \<not> env (k + j))"
  show ?thesis
  proof (rule waitForCompletion.raw_induct [where P = ?P, OF _ assms])
    fix w env k r acc res
    assume IH: "\<And>env k r acc res. w env k r acc = Some res \<Longrightarrow> ?P env k r acc res"
      and eq: "(if Busy r
           then w env (Suc k) (r\<lparr>Busy := env k\<rparr>)
                 (acc @ [Log WarnLevel ''Repo is in the middle of an update, waiting...'', Sleep 3])
           else Some (r, acc)) = Some res"
    show "?P env k r acc res"
    proof (cases "Busy r")
      case False
      then show ?thesis by simp
    next
      case True
      with eq have "w env (Suc k) (r\<lparr>Busy := env k\<rparr>)
          (acc @ [Log WarnLevel ''Repo is in the middle of an update, waiting...'', Sleep 3])
          = Some res" by simp
      from IH [OF this] have "\<not> env k \<or> (\<exists>j. \<not> env (Suc k + j))" by simp
      then show ?thesis
      proof
        assume "\<not> env k"
        then have "\<not> env (k + 0)" by simp
        then show ?thesis by blast
      next
        assume "\<exists>j. \<not> env (Suc k + j)"
        then obtain j where "\<not> env (k + Suc j)" by auto
        then show ?thesis by blast
      qed
    qed
  qed
qed

subsection \<open>The fetch loop and the code after it\<close>


lemma fetch_loop_filter:
  assumes "\<And>l m. \<not> P (Log l m)" and "\<And>n. \<not> P (Sleep n)" and "\<And>s. \<not> P (Fetch s)"
  shows "filter P (snd (fetch_loop C w r i)) = []"
proof (induction C w r i rule: fetch_loop.induct)
  case (1 C w r i)
  show ?case
  proof (cases "i < RetryCount C")
    case False
    then show ?thesis by (subst fetch_loop.simps) simp
  next
    case True
    show ?thesis
    proof (cases "fetch_result_at w i")
      case FetchOK
      with True assms show ?thesis by (subst fetch_loop.simps) simp
    next
      case NoErrAlreadyUpToDate
      with True assms show ?thesis by (subst fetch_loop.simps) simp
    next
      case FetchFailed
      with True assms "1.IH" [OF True FetchFailed] show ?thesis
        by (subst fetch_loop.simps) (simp add: case_prod_beta)
    qed
  qed
qed

lemma fetch_loop_exit_repo:
  "fst (fetch_loop C w r i) = fst (fetch_loop C w r2 i)"
proof (induction C w r i rule: fetch_loop.induct)
  case (1 C w r i)
  show ?case
  proof (cases "i < RetryCount C")
    case False
    then show ?thesis by (simp add: fetch_loop.simps [of C w r i] fetch_loop.simps [of C w r2 i])
  next
    case True
    show ?thesis
    proof (cases "fetch_result_at w i")
      case FetchOK
      with True show ?thesis by (simp add: fetch_loop.simps [of C w r i] fetch_loop.simps [of C w r2 i])
    next
      case NoErrAlreadyUpToDate
      with True show ?thesis by (simp add: fetch_loop.simps [of C w r i] fetch_loop.simps [of C w r2 i])
    next
      case FetchFailed
      with True "1.IH" [OF True FetchFailed] show ?thesis
        by (simp add: fetch_loop.simps [of C w r i] fetch_loop.simps [of C w r2 i] case_prod_beta)
    qed
  qed
qed

lemma fetch_loop_uptodate:
  assumes "n = nat (k - i)" and "i \<le> k" and "k < RetryCount C"
    and "\<forall>j. i \<le> j \<and> j < k \<longrightarrow> fetch_result_at w j = FetchFailed"
    and "fetch_result_at w k = NoErrAlreadyUpToDate"
  shows "\<exists>evs. fetch_loop C w r i = (LoopReturn, evs)
           \<and> length (filter is_fetch evs) = n + 1
           \<and> last evs = Log InfoLevel ''No new commits''"
  using assms
proof (induction n arbitrary: i)
  case 0
  then have "i = k" by simp
  with 0 show ?case by (subst fetch_loop.simps) simp
next
  case (Suc n)
  have lt: "i < k" using Suc.prems(1) by simp
  have failed: "fetch_result_at w i = FetchFailed" using Suc.prems(4) lt by simp
  have "\<exists>evs. fetch_loop C w r (i + 1) = (LoopReturn, evs)
           \<and> length (filter is_fetch evs) = n + 1
           \<and> last evs = Log InfoLevel ''No new commits''"
    using Suc.prems lt by (intro Suc.IH) auto
  then obtain evs where e: "fetch_loop C w r (i + 1) = (LoopReturn, evs)"
    and n: "length (filter is_fetch evs) = n + 1"
    and l: "last evs = Log InfoLevel ''No new commits''" by blast
  from n have ne: "evs \<noteq> []" by auto
  have i_lt: "i < RetryCount C" using lt Suc.prems(3) by simp
  show ?case
    using e n l ne failed i_lt by (subst fetch_loop.simps) simp
qed

lemma fetch_loop_all_failed:
  assumes "n = nat (RetryCount C - i)"
    and "\<forall>j. i \<le> j \<and> j < RetryCount C \<longrightarrow> fetch_result_at w j = FetchFailed"
  shows "fst (fetch_loop C w r i) = LoopExhausted"
  using assms
proof (induction n arbitrary: i)
  case 0
  then show ?case by (subst fetch_loop.simps) simp
next
  case (Suc n)
  have lt: "i < RetryCount C" using Suc.prems(1) by simp
  have "fst (fetch_loop C w r (i + 1)) = LoopExhausted"
    using Suc.prems lt by (intro Suc.IH) auto
  with lt Suc.prems(2) show ?case
    by (subst fetch_loop.simps) (simp add: case_prod_beta)
qed

lemma touchTrigger_filter:
  assumes "\<And>l m. \<not> P (Log l m)" and "\<And>s. \<not> P (Chtimes s)" and "\<And>s. \<not> P (OpenFile s)"
    and "\<And>s. \<not> P (Stat s)"
  shows "filter P (touchTrigger w r) = []"
  using assms by (simp add: touchTrigger_def)

lemma confirm_reset_no_reset: "filter is_reset (confirm_reset w r t) = []"
  by (simp add: confirm_reset_def touchTrigger_filter split: option.splits)

lemma compare_and_reset_resets:
  "Reset h \<in> set (compare_and_reset w r rh t) \<Longrightarrow> h = t"
  by (auto simp: compare_and_reset_def confirm_reset_def touchTrigger_def
      split: option.splits if_splits)

lemma after_fetch_resets:
  assumes "Reset h \<in> set (after_fetch w r)"
  shows "\<exists>rh. reference_res w (update_ref r) = Some rh \<and> h = target_of w rh"
proof (cases "reference_res w (update_ref r)")
  case None
  with assms show ?thesis by (simp add: after_fetch_def)
next
  case (Some rh)
  show ?thesis
  proof (cases "tag_object w rh")
    case None
    with Some assms have "Reset h \<in> set (compare_and_reset w r rh rh)"
      by (simp add: after_fetch_def)
    then have "h = rh" by (rule compare_and_reset_resets)
    with Some None show ?thesis by (simp add: target_of_def)
  next
    case (Some t)
    with \<open>reference_res w (update_ref r) = Some rh\<close> assms
    have "Reset h \<in> set (compare_and_reset w r rh t)"
      by (simp add: after_fetch_def)
    then have "h = t" by (rule compare_and_reset_resets)
    with Some \<open>reference_res w (update_ref r) = Some rh\<close> show ?thesis
      by (simp add: target_of_def)
  qed
qed

lemma fetch_loop_no_reset: "Reset h \<notin> set (snd (fetch_loop C w r i))"
proof -
  have "filter is_reset (snd (fetch_loop C w r i)) = []"
    by (rule fetch_loop_filter) simp_all
  then show ?thesis
    by (metis filter_empty_conv is_reset.simps(1))
qed

lemma update_body_resets:
  assumes "Reset h \<in> set (update_body C w r)"
  shows "\<exists>rh. reference_res w (update_ref r) = Some rh \<and> h = target_of w rh"
proof -
  obtain ex evs where f: "fetch_loop C w r 0 = (ex, evs)" by (cases "fetch_loop C w r 0")
  have no: "Reset h \<notin> set evs" using fetch_loop_no_reset [of h C w r 0] f by simp
  from assms f no have "Reset h \<in> set (after_fetch w r)"
    by (cases ex) (auto simp: update_body_def split: if_splits)
  then show ?thesis by (rule after_fetch_resets)
qed

lemma waiting_mem:
  "e \<in> set (concat (replicate n [a, b])) \<Longrightarrow> e = a \<or> e = b"
  by (induction n) auto

lemma fetch_loop_mem:
  "e \<in> set (snd (fetch_loop C w r i)) \<Longrightarrow>
     e \<in> {Log InfoLevel ''Fetch attempt: '', Fetch (Remote r), Log InfoLevel ''No new commits'',
          Log ErrorLevel ''Failed to fetch updates'', Sleep (RetryDelay C)}"
proof (induction C w r i rule: fetch_loop.induct)
  case (1 C w r i)
  show ?case
  proof (cases "i < RetryCount C")
    case False
    with "1.prems" show ?thesis by (simp add: fetch_loop.simps [of C w r i])
  next
    case True
    show ?thesis
    proof (cases "fetch_result_at w i")
      case FetchOK
      with True "1.prems" show ?thesis by (auto simp: fetch_loop.simps [of C w r i])
    next
      case NoErrAlreadyUpToDate
      with True "1.prems" show ?thesis by (auto simp: fetch_loop.simps [of C w r i])
    next
      case FetchFailed
      with True "1.prems" "1.IH" [OF True FetchFailed] show ?thesis
        by (auto simp: fetch_loop.simps [of C w r i] case_prod_beta)
    qed
  qed
qed

lemma compare_and_reset_confirmed:
  assumes "e \<in> set (compare_and_reset w r rh t)"
    and "e = Log InfoLevel ''Changes confirmed, latest hash'' \<or> is_touch e"
  shows "head_after_reset w = Some t"
  using assms
  by (auto simp: compare_and_reset_def confirm_reset_def split: option.splits if_splits)

lemma after_fetch_confirmed:
  assumes "e \<in> set (after_fetch w r)"
    and "e = Log InfoLevel ''Changes confirmed, latest hash'' \<or> is_touch e"
  shows "\<exists>rh. reference_res w (update_ref r) = Some rh
           \<and> head_after_reset w = Some (target_of w rh)"
proof (cases "reference_res w (update_ref r)")
  case None
  with assms show ?thesis by (auto simp: after_fetch_def)
next
  case (Some rh)
  show ?thesis
  proof (cases "tag_object w rh")
    case None
    with Some assms have "e \<in> set (compare_and_reset w r rh rh)"
      by (auto simp: after_fetch_def)
    from compare_and_reset_confirmed [OF this assms(2)] Some None show ?thesis
      by (simp add: target_of_def)
  next
    case (Some tg)
    with \<open>reference_res w (update_ref r) = Some rh\<close> assms
    have "e \<in> set (compare_and_reset w r rh tg)"
      by (auto simp: after_fetch_def)
    from compare_and_reset_confirmed [OF this assms(2)] Some
      \<open>reference_res w (update_ref r) = Some rh\<close> show ?thesis
      by (simp add: target_of_def)
  qed
qed

lemma update_body_confirmed:
  assumes "e \<in> set (update_body C w r)"
    and "e = Log InfoLevel ''Changes confirmed, latest hash'' \<or> is_touch e"
  shows "\<exists>rh. reference_res w (update_ref r) = Some rh
           \<and> head_after_reset w = Some (target_of w rh)"
proof -
  obtain ex fe where f: "fetch_loop C w r 0 = (ex, fe)" by (cases "fetch_loop C w r 0")
  have no: "e \<notin> set fe"
    using fetch_loop_mem [of e C w r 0] f assms(2) by auto
  from assms f no have "e \<in> set (after_fetch w r)"
    by (cases ex) (auto simp: update_body_def split: if_splits)
  then show ?thesis using assms(2) by (rule after_fetch_confirmed)
qed

lemma update_body_reaches_reset:
  assumes "ssh_ok w" and "open_ok w" and "worktree_ok w"
    and "fst (fetch_loop C w r 0) \<noteq> LoopReturn"
    and "reference_res w (update_ref r) = Some rh"
    and "reference_res w ''HEAD'' = Some l" and "l \<noteq> rh"
  shows "\<exists>pre. update_body C w r = pre @ [Reset (target_of w rh)] @
            (if \<not> reset_ok w (target_of w rh) then [Log ErrorLevel ''Failed to hard reset work tree'']
             else confirm_reset w r (target_of w rh))"
proof -
  obtain ex fe where f: "fetch_loop C w r 0 = (ex, fe)" by (cases "fetch_loop C w r 0")
  with assms(4) have ex: "ex \<noteq> LoopReturn" by simp
  let ?tail = "[Reset (target_of w rh)] @
            (if \<not> reset_ok w (target_of w rh) then [Log ErrorLevel ''Failed to hard reset work tree'']
             else confirm_reset w r (target_of w rh))"
  have c: "\<And>t. compare_and_reset w r rh t = [Reference ''HEAD''] @ [Reset t] @
            (if \<not> reset_ok w t then [Log ErrorLevel ''Failed to hard reset work tree'']
             else confirm_reset w r t)"
    using assms(6,7) by (simp add: compare_and_reset_def)
  have "\<exists>p. after_fetch w r = p @ ?tail"
  proof (cases "tag_object w rh")
    case None
    then have "after_fetch w r = [Log InfoLevel ''Fetched new updates'',
        Reference (update_ref r), TagObject rh, Reference ''HEAD''] @ ?tail"
      using assms(5) c by (simp add: after_fetch_def target_of_def)
    then show ?thesis by blast
  next
    case (Some tg)
    then have "after_fetch w r = [Log InfoLevel ''Fetched new updates'',
        Reference (update_ref r), TagObject rh,
        Log InfoLevel ''Annotated tag hash'', Log InfoLevel ''Annotated tag target hash'',
        Reference ''HEAD''] @ ?tail"
      using assms(5) c by (simp add: after_fetch_def target_of_def)
    then show ?thesis by blast
  qed
  then obtain p where p: "after_fetch w r = p @ ?tail" by blast
  have "update_body C w r =
      ([NewPublicKeysFromFile (SSHPrivKey r), PlainOpen (Directory r), Worktree] @ fe @ p) @ ?tail"
    using assms(1-3) f ex p by (cases ex) (simp_all add: update_body_def)
  then show ?thesis by blast
qed

lemma compare_and_reset_mismatch:
  assumes "Reset t \<in> set (compare_and_reset w r rh t')" and "reset_ok w t"
    and "head_after_reset w = Some h" and "h \<noteq> t"
  shows "compare_and_reset w r rh t' = [Reference ''HEAD''] @ mismatch_suffix t"
proof -
  have t: "t' = t" using compare_and_reset_resets [OF assms(1)] by simp
  obtain l where l: "reference_res w ''HEAD'' = Some l" and ne: "rh \<noteq> l"
    using assms(1) by (auto simp: compare_and_reset_def split: option.splits if_splits)
  show ?thesis
    using t l ne assms(2-4)
    by (simp add: compare_and_reset_def confirm_reset_def mismatch_suffix_def)
qed

lemma after_fetch_mismatch:
  assumes "Reset t \<in> set (after_fetch w r)" and "reset_ok w t"
    and "head_after_reset w = Some h" and "h \<noteq> t"
  shows "\<exists>pre. after_fetch w r = pre @ mismatch_suffix t
           \<and> filter is_reset pre = [] \<and> filter is_touch pre = []"
proof (cases "reference_res w (update_ref r)")
  case None
  with assms(1) show ?thesis by (simp add: after_fetch_def)
next
  case (Some rh)
  show ?thesis
  proof (cases "tag_object w rh")
    case None
    with Some assms(1) have "Reset t \<in> set (compare_and_reset w r rh rh)"
      by (simp add: after_fetch_def)
    from compare_and_reset_mismatch [OF this assms(2-4)]
    have "after_fetch w r =
        [Log InfoLevel ''Fetched new updates'', Reference (update_ref r), TagObject rh,
         Reference ''HEAD''] @ mismatch_suffix t"
      using Some None by (simp add: after_fetch_def)
    then show ?thesis by (intro exI [of _ "[Log InfoLevel ''Fetched new updates'',
        Reference (update_ref r), TagObject rh, Reference ''HEAD'']"]) simp
  next
    case (Some tg)
    with \<open>reference_res w (update_ref r) = Some rh\<close> assms(1)
    have "Reset t \<in> set (compare_and_reset w r rh tg)"
      by (simp add: after_fetch_def)
    from compare_and_reset_mismatch [OF this assms(2-4)]
    have "after_fetch w r =
        [Log InfoLevel ''Fetched new updates'', Reference (update_ref r), TagObject rh,
         Log InfoLevel ''Annotated tag hash'', Log InfoLevel ''Annotated tag target hash'',
         Reference ''HEAD''] @ mismatch_suffix t"
      using Some \<open>reference_res w (update_ref r) = Some rh\<close> by (simp add: after_fetch_def)
    then show ?thesis by (intro exI [of _ "[Log InfoLevel ''Fetched new updates'',
        Reference (update_ref r), TagObject rh,
        Log InfoLevel ''Annotated tag hash'', Log InfoLevel ''Annotated tag target hash'',
        Reference ''HEAD'']"]) simp
  qed
qed

lemma update_body_mismatch:
  assumes "Reset t \<in> set (update_body C w r)" and "reset_ok w t"
    and "head_after_reset w = Some h" and "h \<noteq> t"
  shows "\<exists>pre. update_body C w r = pre @ mismatch_suffix t
           \<and> filter is_reset pre = [] \<and> filter is_touch pre = []"
proof -
  obtain ex fe where f: "fetch_loop C w r 0 = (ex, fe)" by (cases "fetch_loop C w r 0")
  have no: "Reset t \<notin> set fe" using fetch_loop_no_reset [of t C w r 0] f by simp
  have q2: "filter is_reset fe = []"
    using fetch_loop_filter [of is_reset C w r 0] f by simp
  have q3: "filter is_touch fe = []"
    using fetch_loop_filter [of is_touch C w r 0] f by simp
  from assms(1) f no have ok: "ssh_ok w" "open_ok w" "worktree_ok w" "ex \<noteq> LoopReturn"
    by (cases ex; auto simp: update_body_def split: if_splits)+
  from assms(1) f no have "Reset t \<in> set (after_fetch w r)"
    by (cases ex) (auto simp: update_body_def split: if_splits)
  from after_fetch_mismatch [OF this assms(2-4)] obtain pre where
    p: "after_fetch w r = pre @ mismatch_suffix t"
    and p2: "filter is_reset pre = []" and p3: "filter is_touch pre = []" by blast
  have "update_body C w r =
      ([NewPublicKeysFromFile (SSHPrivKey r), PlainOpen (Directory r), Worktree] @ fe @ pre)
      @ mismatch_suffix t"
    using ok f p by (cases ex) (simp_all add: update_body_def)
  moreover have "filter is_reset
      ([NewPublicKeysFromFile (SSHPrivKey r), PlainOpen (Directory r), Worktree] @ fe @ pre) = []"
    using q2 p2 by simp
  moreover have "filter is_touch
      ([NewPublicKeysFromFile (SSHPrivKey r), PlainOpen (Directory r), Worktree] @ fe @ pre) = []"
    using q3 p3 by simp
  ultimately show ?thesis by blast
qed

subsection \<open>The whole operation\<close>

text \<open>\<open>update\<close> and \<open>clone\<close> without the intermediate record.\<close>

lemma update_unfold:
  "update C w r =
     (case waitForCompletion (busy_after_sleep w) 0 r [] of
        None \<Rightarrow> None
      | Some (r1, evs) \<Rightarrow>
          Some (finished (r1\<lparr>Busy := True\<rparr>), evs @ update_body C w (r1\<lparr>Busy := True\<rparr>)))"
  by (simp add: update_def update_run_def Let_def split: option.splits)

lemma clone_unfold:
  "clone w r =
     (case waitForCompletion (busy_after_sleep w) 0 r [] of
        None \<Rightarrow> None
      | Some (r1, evs) \<Rightarrow>
          Some (finished (r1\<lparr>Busy := True\<rparr>), evs @ clone_body w (r1\<lparr>Busy := True\<rparr>)))"
  by (simp add: clone_def clone_run_def Let_def split: option.splits)

lemma filter_waiting:
  "\<not> P a \<Longrightarrow> \<not> P b \<Longrightarrow> filter P (concat (replicate n [a, b])) = []"
  by (induction n) simp_all

lemma update_shape:
  assumes "update C w r = Some (r', evs)"
  shows "r' = r\<lparr>Busy := False\<rparr> \<and>
         (\<exists>n. evs = concat (replicate n
                  [Log WarnLevel ''Repo is in the middle of an update, waiting...'', Sleep 3])
                @ update_body C w (r\<lparr>Busy := True\<rparr>))"
proof -
  from assms obtain r1 evs1 where
    w: "waitForCompletion (busy_after_sleep w) 0 r [] = Some (r1, evs1)"
    and r': "r' = finished (r1\<lparr>Busy := True\<rparr>)"
    and evs: "evs = evs1 @ update_body C w (r1\<lparr>Busy := True\<rparr>)"
    by (auto simp: update_unfold split: option.splits)
  from wait_result [OF w] obtain n where r1: "r1 = r\<lparr>Busy := False\<rparr>"
    and e1: "evs1 = concat (replicate n
        [Log WarnLevel ''Repo is in the middle of an update, waiting...'', Sleep 3])"
    by auto
  from r1 r' have "r' = r\<lparr>Busy := False\<rparr>" by (simp add: finished_def)
  moreover from r1 have "r1\<lparr>Busy := True\<rparr> = r\<lparr>Busy := True\<rparr>" by simp
  ultimately show ?thesis using evs e1 by auto
qed

lemma clone_shape:
  assumes "clone w r = Some (r', evs)"
  shows "r' = r\<lparr>Busy := False\<rparr> \<and>
         (\<exists>n. evs = concat (replicate n
                  [Log WarnLevel ''Repo is in the middle of an update, waiting...'', Sleep 3])
                @ clone_body w (r\<lparr>Busy := True\<rparr>))"
proof -
  from assms obtain r1 evs1 where
    w: "waitForCompletion (busy_after_sleep w) 0 r [] = Some (r1, evs1)"
    and r': "r' = finished (r1\<lparr>Busy := True\<rparr>)"
    and evs: "evs = evs1 @ clone_body w (r1\<lparr>Busy := True\<rparr>)"
    by (auto simp: clone_unfold split: option.splits)
  from wait_result [OF w] obtain n where r1: "r1 = r\<lparr>Busy := False\<rparr>"
    and e1: "evs1 = concat (replicate n
        [Log WarnLevel ''Repo is in the middle of an update, waiting...'', Sleep 3])"
    by auto
  from r1 r' have "r' = r\<lparr>Busy := False\<rparr>" by (simp add: finished_def)
  moreover from r1 have "r1\<lparr>Busy := True\<rparr> = r\<lparr>Busy := True\<rparr>" by simp
  ultimately show ?thesis using evs e1 by auto
qed

lemma update_returns_iff:
  "(\<exists>res. update C w r = Some res) \<longleftrightarrow> (\<not> Busy r \<or> (\<exists>j. \<not> busy_after_sleep w j))"
proof
  assume "\<exists>res. update C w r = Some res"
  then obtain res where "waitForCompletion (busy_after_sleep w) 0 r [] = Some res"
    by (auto simp: update_unfold split: option.splits)
  from wait_returns_only_if [OF this] show "\<not> Busy r \<or> (\<exists>j. \<not> busy_after_sleep w j)"
    by simp
next
  assume a: "\<not> Busy r \<or> (\<exists>j. \<not> busy_after_sleep w j)"
  have "\<exists>res. waitForCompletion (busy_after_sleep w) 0 r [] = Some res"
  proof (cases "Busy r")
    case False
    then show ?thesis by (simp add: wait_free)
  next
    case True
    with a obtain j where "\<not> busy_after_sleep w (0 + j)" by auto
    then show ?thesis by (rule wait_returns)
  qed
  then show "\<exists>res. update C w r = Some res"
    by (auto simp: update_unfold)
qed

lemma clone_returns_iff:
  "(\<exists>res. clone w r = Some res) \<longleftrightarrow> (\<not> Busy r \<or> (\<exists>j. \<not> busy_after_sleep w j))"
proof
  assume "\<exists>res. clone w r = Some res"
  then obtain res where "waitForCompletion (busy_after_sleep w) 0 r [] = Some res"
    by (auto simp: clone_unfold split: option.splits)
  from wait_returns_only_if [OF this] show "\<not> Busy r \<or> (\<exists>j. \<not> busy_after_sleep w j)"
    by simp
next
  assume a: "\<not> Busy r \<or> (\<exists>j. \<not> busy_after_sleep w j)"
  have "\<exists>res. waitForCompletion (busy_after_sleep w) 0 r [] = Some res"
  proof (cases "Busy r")
    case False
    then show ?thesis by (simp add: wait_free)
  next
    case True
    with a obtain j where "\<not> busy_after_sleep w (0 + j)" by auto
    then show ?thesis by (rule wait_returns)
  qed
  then show "\<exists>res. clone w r = Some res"
    by (auto simp: clone_unfold)
qed

text \<open>The flag and the return statement of a run.\<close>

lemma fetch_loop_return_last:
  "fst (fetch_loop C w r i) = LoopReturn \<Longrightarrow>
     snd (fetch_loop C w r i) \<noteq> [] \<and>
     last (snd (fetch_loop C w r i)) = Log InfoLevel ''No new commits''"
proof (induction C w r i rule: fetch_loop.induct)
  case (1 C w r i)
  show ?case
  proof (cases "i < RetryCount C")
    case False
    with "1.prems" show ?thesis by (simp add: fetch_loop.simps [of C w r i])
  next
    case True
    show ?thesis
    proof (cases "fetch_result_at w i")
      case FetchOK
      with True "1.prems" show ?thesis by (simp add: fetch_loop.simps [of C w r i])
    next
      case NoErrAlreadyUpToDate
      with True show ?thesis by (simp add: fetch_loop.simps [of C w r i])
    next
      case FetchFailed
      with True "1.prems" have "fst (fetch_loop C w r (i + 1)) = LoopReturn"
        by (simp add: fetch_loop.simps [of C w r i] case_prod_beta)
      from "1.IH" [OF True FetchFailed this] True FetchFailed show ?thesis
        by (simp add: fetch_loop.simps [of C w r i] case_prod_beta)
    qed
  qed
qed

lemma confirm_reset_last:
  "last (confirm_reset w r t) =
     (case head_after_reset w of
        None \<Rightarrow> Log ErrorLevel ''Failed to get local HEAD reference''
      | Some h \<Rightarrow> if h = t then last (Log InfoLevel ''Changes confirmed, latest hash'' # touchTrigger w r)
                  else Log DebugLevel ''Local hash'')"
  by (simp add: confirm_reset_def split: option.splits)

lemma confirm_reset_nonempty: "confirm_reset w r t \<noteq> []"
  by (simp add: confirm_reset_def)

lemma compare_and_reset_last:
  "last (compare_and_reset w r rh t) =
     (case reference_res w ''HEAD'' of
        None \<Rightarrow> Log ErrorLevel ''Failed to get local reference for HEAD''
      | Some l \<Rightarrow>
          if rh = l then Log WarnLevel ''Already up to date''
          else if \<not> reset_ok w t then Log ErrorLevel ''Failed to hard reset work tree''
          else last (confirm_reset w r t))"
  by (simp add: compare_and_reset_def confirm_reset_nonempty split: option.splits)

lemma compare_and_reset_nonempty: "compare_and_reset w r rh t \<noteq> []"
  by (simp add: compare_and_reset_def)

lemma after_fetch_last:
  "last (after_fetch w r) =
     (case reference_res w (update_ref r) of
        None \<Rightarrow> Log ErrorLevel ''Failed to get reference''
      | Some rh \<Rightarrow> last (compare_and_reset w r rh (target_of w rh)))"
  by (simp add: after_fetch_def target_of_def compare_and_reset_nonempty split: option.splits)

lemma after_fetch_nonempty: "after_fetch w r \<noteq> []"
  by (simp add: after_fetch_def)

lemma update_body_last:
  "last (update_body C w r) = update_last_event w r (update_exit_of C w r)"
proof -
  obtain ex fe where f: "fetch_loop C w r 0 = (ex, fe)" by (cases "fetch_loop C w r 0")
  show ?thesis
  proof (cases "ssh_ok w \<and> open_ok w \<and> worktree_ok w")
    case False
    then show ?thesis
      by (auto simp: update_body_def update_exit_of_def)
  next
    case True
    show ?thesis
    proof (cases "ex = LoopReturn")
      case True
      with f fetch_loop_return_last [of C w r 0]
      have "fe \<noteq> []" "last fe = Log InfoLevel ''No new commits''" by simp_all
      with \<open>ssh_ok w \<and> open_ok w \<and> worktree_ok w\<close> f True show ?thesis
        by (simp add: update_body_def update_exit_of_def)
    next
      case False
      then have b: "update_body C w r =
          [NewPublicKeysFromFile (SSHPrivKey r), PlainOpen (Directory r), Worktree] @ fe
          @ after_fetch w r"
        using \<open>ssh_ok w \<and> open_ok w \<and> worktree_ok w\<close> f
        by (cases ex) (simp_all add: update_body_def)
      have l: "last (update_body C w r) = last (after_fetch w r)"
        using b after_fetch_nonempty by simp
      have e: "update_exit_of C w r =
          (case reference_res w (update_ref r) of
                None \<Rightarrow> ReferenceFailure
              | Some remoteHash \<Rightarrow>
                  (case reference_res w ''HEAD'' of
                     None \<Rightarrow> HeadFailure
                   | Some localHash \<Rightarrow>
                       if remoteHash = localHash then NothingToDo
                       else if \<not> reset_ok w (target_of w remoteHash) then ResetFailure
                       else
                         (case head_after_reset w of
                            None \<Rightarrow> HeadAfterResetFailure
                          | Some headHash \<Rightarrow>
                              if headHash = target_of w remoteHash then FullSuccess
                              else VerificationMismatch)))"
        using False \<open>ssh_ok w \<and> open_ok w \<and> worktree_ok w\<close> f
        by (cases ex) (simp_all add: update_exit_of_def)
      show ?thesis
        unfolding l e
        by (simp add: after_fetch_last compare_and_reset_last confirm_reset_last
            split: option.splits)
    qed
  qed
qed

lemma clone_body_last:
  "last (clone_body w r) = clone_last_event w r (clone_exit_of w r)"
  by (simp add: clone_body_def clone_exit_of_def)

lemma update_body_nonempty: "update_body C w r \<noteq> []"
  by (simp add: update_body_def)

lemma clone_body_nonempty: "clone_body w r \<noteq> []"
  by (simp add: clone_body_def)

lemma update_run_shape:
  assumes "update_run C w r = Some x"
  shows "held x = r\<lparr>Busy := True\<rparr> \<and> final x = finished (held x)
         \<and> exit_by x = update_exit_of C w (held x)
         \<and> (\<exists>n. events x = concat (replicate n
                  [Log WarnLevel ''Repo is in the middle of an update, waiting...'', Sleep 3])
                @ update_body C w (held x))"
proof -
  from assms obtain r1 evs1 where
    w: "waitForCompletion (busy_after_sleep w) 0 r [] = Some (r1, evs1)"
    and x: "x = \<lparr>held = r1\<lparr>Busy := True\<rparr>, exit_by = update_exit_of C w (r1\<lparr>Busy := True\<rparr>),
                 final = finished (r1\<lparr>Busy := True\<rparr>),
                 events = evs1 @ update_body C w (r1\<lparr>Busy := True\<rparr>)\<rparr>"
    by (auto simp: update_run_def Let_def split: option.splits)
  from wait_result [OF w] obtain n where r1: "r1 = r\<lparr>Busy := False\<rparr>"
    and e1: "evs1 = concat (replicate n
        [Log WarnLevel ''Repo is in the middle of an update, waiting...'', Sleep 3])"
    by auto
  from r1 have "r1\<lparr>Busy := True\<rparr> = r\<lparr>Busy := True\<rparr>" by simp
  with x e1 show ?thesis by auto
qed

lemma clone_run_shape:
  assumes "clone_run w r = Some x"
  shows "held x = r\<lparr>Busy := True\<rparr> \<and> final x = finished (held x)
         \<and> exit_by x = clone_exit_of w (held x)
         \<and> (\<exists>n. events x = concat (replicate n
                  [Log WarnLevel ''Repo is in the middle of an update, waiting...'', Sleep 3])
                @ clone_body w (held x))"
proof -
  from assms obtain r1 evs1 where
    w: "waitForCompletion (busy_after_sleep w) 0 r [] = Some (r1, evs1)"
    and x: "x = \<lparr>held = r1\<lparr>Busy := True\<rparr>, exit_by = clone_exit_of w (r1\<lparr>Busy := True\<rparr>),
                 final = finished (r1\<lparr>Busy := True\<rparr>),
                 events = evs1 @ clone_body w (r1\<lparr>Busy := True\<rparr>)\<rparr>"
    by (auto simp: clone_run_def Let_def split: option.splits)
  from wait_result [OF w] obtain n where r1: "r1 = r\<lparr>Busy := False\<rparr>"
    and e1: "evs1 = concat (replicate n
        [Log WarnLevel ''Repo is in the middle of an update, waiting...'', Sleep 3])"
    by auto
  from r1 have "r1\<lparr>Busy := True\<rparr> = r\<lparr>Busy := True\<rparr>" by simp
  with x e1 show ?thesis by auto
qed

lemma update_run_flag:
  assumes "update_run C w r = Some x"
  shows "held x = r\<lparr>Busy := True\<rparr> \<and> Busy (held x)
         \<and> final x = finished (held x) \<and> \<not> Busy (final x)
         \<and> exit_by x = update_exit_of C w (held x)
         \<and> last (events x) = update_last_event w (held x) (exit_by x)"
proof -
  from update_run_shape [OF assms] obtain n where
    h: "held x = r\<lparr>Busy := True\<rparr>" and f: "final x = finished (held x)"
    and p: "exit_by x = update_exit_of C w (held x)"
    and e: "events x = concat (replicate n
                  [Log WarnLevel ''Repo is in the middle of an update, waiting...'', Sleep 3])
                @ update_body C w (held x)" by blast
  have "last (events x) = last (update_body C w (held x))"
    using e update_body_nonempty by simp
  then have "last (events x) = update_last_event w (held x) (exit_by x)"
    using p update_body_last by simp
  with h f p show ?thesis by (simp add: finished_def)
qed

lemma clone_run_flag:
  assumes "clone_run w r = Some x"
  shows "held x = r\<lparr>Busy := True\<rparr> \<and> Busy (held x)
         \<and> final x = finished (held x) \<and> \<not> Busy (final x)
         \<and> exit_by x = clone_exit_of w (held x)
         \<and> last (events x) = clone_last_event w (held x) (exit_by x)"
proof -
  from clone_run_shape [OF assms] obtain n where
    h: "held x = r\<lparr>Busy := True\<rparr>" and f: "final x = finished (held x)"
    and p: "exit_by x = clone_exit_of w (held x)"
    and e: "events x = concat (replicate n
                  [Log WarnLevel ''Repo is in the middle of an update, waiting...'', Sleep 3])
                @ clone_body w (held x)" by blast
  have "last (events x) = last (clone_body w (held x))"
    using e clone_body_nonempty by simp
  then have "last (events x) = clone_last_event w (held x) (exit_by x)"
    using p clone_body_last by simp
  with h f p show ?thesis by (simp add: finished_def)
qed

lemma update_ref_not_HEAD: "update_ref r \<noteq> ''HEAD''"
  by (simp add: update_ref_def)

lemma update_exits_reachable:
  assumes "0 < RetryCount C"
  shows "\<exists>w'. update_exit_of C w' r = p"
proof -
  have ok: "\<And>w'. fetch_result_at w' 0 = FetchOK \<Longrightarrow> fst (fetch_loop C w' r 0) = LoopBreak"
    using assms by (simp add: fetch_loop.simps [of C _ r 0])
  have ret: "\<And>w'. fetch_result_at w' 0 = NoErrAlreadyUpToDate
      \<Longrightarrow> fst (fetch_loop C w' r 0) = LoopReturn"
    using assms by (simp add: fetch_loop.simps [of C _ r 0])
  note h = update_ref_not_HEAD [of r]
  show ?thesis
  proof (cases p)
    case SSHAuthFailure
    then show ?thesis
      by (intro exI [of _ "good_world\<lparr>ssh_ok := False\<rparr>"]) (simp add: update_exit_of_def)
  next
    case OpenFailure
    then show ?thesis
      by (intro exI [of _ "good_world\<lparr>open_ok := False\<rparr>"])
        (simp add: update_exit_of_def good_world_def)
  next
    case WorktreeFailure
    then show ?thesis
      by (intro exI [of _ "good_world\<lparr>worktree_ok := False\<rparr>"])
        (simp add: update_exit_of_def good_world_def)
  next
    case AlreadyUpToDate
    then show ?thesis
      by (intro exI [of _ "good_world\<lparr>fetch_result_at := (\<lambda>i. NoErrAlreadyUpToDate)\<rparr>"])
        (simp add: update_exit_of_def good_world_def ret)
  next
    case ReferenceFailure
    then show ?thesis
      by (intro exI [of _ "good_world\<lparr>reference_res := (\<lambda>name. None)\<rparr>"])
        (simp add: update_exit_of_def good_world_def ok)
  next
    case HeadFailure
    then show ?thesis using h
      by (intro exI [of _ "good_world\<lparr>reference_res :=
            (\<lambda>name. if name = ''HEAD'' then None else Some 7)\<rparr>"])
        (simp add: update_exit_of_def good_world_def ok)
  next
    case NothingToDo
    then show ?thesis
      by (intro exI [of _ "good_world\<lparr>reference_res := (\<lambda>name. Some 7)\<rparr>"])
        (simp add: update_exit_of_def good_world_def ok)
  next
    case ResetFailure
    then show ?thesis using h
      by (intro exI [of _ "good_world\<lparr>reset_ok := (\<lambda>h. False)\<rparr>"])
        (simp add: update_exit_of_def good_world_def ok)
  next
    case HeadAfterResetFailure
    then show ?thesis using h
      by (intro exI [of _ "good_world\<lparr>head_after_reset := None\<rparr>"])
        (simp add: update_exit_of_def good_world_def ok)
  next
    case VerificationMismatch
    then show ?thesis using h
      by (intro exI [of _ "good_world\<lparr>head_after_reset := Some 5\<rparr>"])
        (simp add: update_exit_of_def good_world_def ok target_of_def)
  next
    case FullSuccess
    then show ?thesis using h
      by (intro exI [of _ good_world])
        (simp add: update_exit_of_def good_world_def ok target_of_def)
  qed
qed

lemma clone_exits_reachable: "\<exists>w'. clone_exit_of w' r = p"
proof (cases p)
  case CloneSSHAuthFailure
  then show ?thesis
    by (intro exI [of _ "good_world\<lparr>ssh_ok := False\<rparr>"]) (simp add: clone_exit_of_def)
next
  case CloneFailure
  then show ?thesis
    by (intro exI [of _ "good_world\<lparr>clone_ok := False\<rparr>"])
      (simp add: clone_exit_of_def good_world_def)
next
  case CloneSuccess
  then show ?thesis
    by (intro exI [of _ good_world]) (simp add: clone_exit_of_def good_world_def)
qed

lemma update_run_returns_iff:
  "(\<exists>x. update_run C w r = Some x) \<longleftrightarrow> (\<exists>res. update C w r = Some res)"
  by (auto simp: update_def)

lemma clone_run_returns_iff:
  "(\<exists>x. clone_run w r = Some x) \<longleftrightarrow> (\<exists>res. clone w r = Some res)"
  by (auto simp: clone_def)

text \<open>The equations that evaluate an operation on a concrete input.\<close>

lemmas sync_defs = update_unfold update_body_def after_fetch_def compare_and_reset_def
  confirm_reset_def touchTrigger_def HasTrigger_def isEmpty_def update_ref_def finished_def
  clone_unfold clone_body_def clone_ref_def
  waitForCompletion.simps fetch_loop.simps
  hook_branch_def hook_tag_def mk_repo_def default_config_def good_world_def
  failing_fetch_world_def tag_at_head_world_def tag_moved_world_def mismatch_world_def
  up_to_date_world_def

subsection \<open>Claims about update and clone\<close>

text \<open>
  C6. If a fetch attempt of \<open>update\<close> reports "already up to date" (attempt \<open>k\<close>,
  which is made when \<open>k\<close> is below the retry count and the attempts before it failed),
  the operation returns at once: \<open>k + 1\<close> fetches have been made and no more, the last
  event is the log line "No new commits", and there is no reference resolution, no
  reset and no touch of the trigger file. The operation returns whenever its wait for
  the busy flag does, and leaves the flag cleared.
\<close>

theorem C6_already_up_to_date:
  assumes "\<not> Busy r \<or> (\<exists>j. \<not> busy_after_sleep w j)"
    and "ssh_ok w" and "open_ok w" and "worktree_ok w"
    and "0 \<le> k" and "k < RetryCount C"
    and "\<forall>j. 0 \<le> j \<and> j < k \<longrightarrow> fetch_result_at w j = FetchFailed"
    and "fetch_result_at w k = NoErrAlreadyUpToDate"
  shows "\<exists>r' evs. update C w r = Some (r', evs)
           \<and> length (filter is_fetch evs) = nat k + 1
           \<and> last evs = Log InfoLevel ''No new commits''
           \<and> filter is_reference evs = []
           \<and> filter is_reset evs = []
           \<and> filter is_touch evs = []
           \<and> \<not> Busy r'"
proof -
  from assms(1) obtain r' evs where u: "update C w r = Some (r', evs)"
    using update_returns_iff [of C w r] by auto
  from update_shape [OF u] obtain n where r': "r' = r\<lparr>Busy := False\<rparr>"
    and evs: "evs = concat (replicate n
                  [Log WarnLevel ''Repo is in the middle of an update, waiting...'', Sleep 3])
                @ update_body C w (r\<lparr>Busy := True\<rparr>)"
    by auto
  let ?r = "r\<lparr>Busy := True\<rparr>"
  have "\<exists>fe. fetch_loop C w ?r 0 = (LoopReturn, fe)
           \<and> length (filter is_fetch fe) = nat (k - 0) + 1
           \<and> last fe = Log InfoLevel ''No new commits''"
    using assms(5-8) by (intro fetch_loop_uptodate) auto
  then obtain fe where f: "fetch_loop C w ?r 0 = (LoopReturn, fe)"
    and nf: "length (filter is_fetch fe) = nat k + 1"
    and lf: "last fe = Log InfoLevel ''No new commits''" by auto
  from nf have ne: "fe \<noteq> []" by auto
  have body: "update_body C w ?r =
      [NewPublicKeysFromFile (SSHPrivKey ?r), PlainOpen (Directory ?r), Worktree] @ fe"
    using assms(2-4) f by (simp add: update_body_def)
  have q1: "filter is_reference fe = []"
    using fetch_loop_filter [of is_reference C w ?r 0] f by simp
  have q2: "filter is_reset fe = []"
    using fetch_loop_filter [of is_reset C w ?r 0] f by simp
  have q3: "filter is_touch fe = []"
    using fetch_loop_filter [of is_touch C w ?r 0] f by simp
  have "length (filter is_fetch evs) = nat k + 1"
    using evs body nf by (simp add: filter_waiting)
  moreover have "last evs = Log InfoLevel ''No new commits''"
    using evs body lf ne by simp
  moreover have "filter is_reference evs = []"
    using evs body q1 by (simp add: filter_waiting)
  moreover have "filter is_reset evs = []"
    using evs body q2 by (simp add: filter_waiting)
  moreover have "filter is_touch evs = []"
    using evs body q3 by (simp add: filter_waiting)
  moreover have "\<not> Busy r'" using r' by simp
  ultimately show ?thesis using u by blast
qed

theorem C6_witness:
  "Busy (hook_branch\<lparr>Busy := True\<rparr>) \<and> \<not> busy_after_sleep up_to_date_world 1
   \<and> fetch_result_at up_to_date_world 0 = FetchFailed
   \<and> fetch_result_at up_to_date_world 1 = NoErrAlreadyUpToDate
   \<and> (\<exists>r' evs. update (default_config\<lparr>RetryCount := 3\<rparr>) up_to_date_world
                  (hook_branch\<lparr>Busy := True\<rparr>) = Some (r', evs)
           \<and> length (filter is_fetch evs) = 2
           \<and> last evs = Log InfoLevel ''No new commits''
           \<and> filter is_reference evs = []
           \<and> filter is_reset evs = []
           \<and> filter is_touch evs = []
           \<and> \<not> Busy r')"
proof -
  have h1: "\<not> Busy (hook_branch\<lparr>Busy := True\<rparr>) \<or> (\<exists>j. \<not> busy_after_sleep up_to_date_world j)"
    by (simp add: up_to_date_world_def good_world_def) (rule exI [of _ 1], simp)
  have h2: "ssh_ok up_to_date_world" "open_ok up_to_date_world" "worktree_ok up_to_date_world"
    by (simp_all add: up_to_date_world_def good_world_def)
  have h3: "(0::int) \<le> 1" "1 < RetryCount (default_config\<lparr>RetryCount := 3\<rparr>)" by simp_all
  have h4: "\<forall>j. 0 \<le> j \<and> j < 1 \<longrightarrow> fetch_result_at up_to_date_world j = FetchFailed"
    by (simp add: up_to_date_world_def good_world_def)
  have h5: "fetch_result_at up_to_date_world 1 = NoErrAlreadyUpToDate"
    by (simp add: up_to_date_world_def good_world_def)
  have h0: "fetch_result_at up_to_date_world 0 = FetchFailed"
    by (simp add: up_to_date_world_def good_world_def)
  have b: "Busy (hook_branch\<lparr>Busy := True\<rparr>)" "\<not> busy_after_sleep up_to_date_world 1"
    by (simp_all add: up_to_date_world_def good_world_def)
  from C6_already_up_to_date [OF h1 h2 h3 h4 h5]
  have c: "\<exists>r' evs. update (default_config\<lparr>RetryCount := 3\<rparr>) up_to_date_world
                  (hook_branch\<lparr>Busy := True\<rparr>) = Some (r', evs)
           \<and> length (filter is_fetch evs) = 2
           \<and> last evs = Log InfoLevel ''No new commits''
           \<and> filter is_reference evs = []
           \<and> filter is_reset evs = []
           \<and> filter is_touch evs = []
           \<and> \<not> Busy r'"
    by (simp add: numeral_2_eq_2)
  from b h0 h5 c show ?thesis by blast
qed

text \<open>
  C7. When the label is a tag whose reference points at an annotated tag object, every
  hard reset of \<open>update\<close> is to the tag's target commit, and the check after the reset
  compares \<open>HEAD\<close> with that commit: the changes are confirmed, and the trigger is
  touched, only if \<open>HEAD\<close> is at the target commit then; and when the reset is reached
  (the calls before it succeed and \<open>HEAD\<close> differs from the tag reference) it is
  a reset to the target commit, confirmed if \<open>HEAD\<close> is at it afterwards and reported
  as a mismatch if not.
\<close>

theorem C7_annotated_tag_target:
  assumes "\<not> Busy r \<or> (\<exists>j. \<not> busy_after_sleep w j)"
    and "LabelType r = ''tag''"
    and "reference_res w (''refs/tags/'' @ Label r) = Some tagHash"
    and "tag_object w tagHash = Some commit"
  shows "\<exists>r' evs. update C w r = Some (r', evs)
     \<and> (\<forall>h. Reset h \<in> set evs \<longrightarrow> h = commit)
     \<and> (Log InfoLevel ''Changes confirmed, latest hash'' \<in> set evs
          \<longrightarrow> head_after_reset w = Some commit)
     \<and> (filter is_touch evs \<noteq> [] \<longrightarrow> head_after_reset w = Some commit)
     \<and> (ssh_ok w \<and> open_ok w \<and> worktree_ok w \<and> fst (fetch_loop C w r 0) \<noteq> LoopReturn
          \<and> (\<exists>l. reference_res w ''HEAD'' = Some l \<and> l \<noteq> tagHash)
        \<longrightarrow> Reset commit \<in> set evs
            \<and> (reset_ok w commit \<and> head_after_reset w = Some commit
                 \<longrightarrow> Log InfoLevel ''Changes confirmed, latest hash'' \<in> set evs)
            \<and> (reset_ok w commit \<and> (\<exists>h. head_after_reset w = Some h \<and> h \<noteq> commit)
                 \<longrightarrow> Log ErrorLevel ''Something went wrong, hashes don't match!'' \<in> set evs))"
proof -
  from assms(1) obtain r' evs where u: "update C w r = Some (r', evs)"
    using update_returns_iff [of C w r] by auto
  from update_shape [OF u] obtain n where
    evs: "evs = concat (replicate n
                  [Log WarnLevel ''Repo is in the middle of an update, waiting...'', Sleep 3])
                @ update_body C w (r\<lparr>Busy := True\<rparr>)"
    by auto
  let ?r = "r\<lparr>Busy := True\<rparr>"
  let ?wt = "concat (replicate n
                  [Log WarnLevel ''Repo is in the middle of an update, waiting...'', Sleep 3])"
  have ref: "update_ref ?r = ''refs/tags/'' @ Label r"
    using assms(2) by (simp add: update_ref_def)
  have tgt: "target_of w tagHash = commit"
    using assms(4) by (simp add: target_of_def)
  have wt_mem: "\<And>e. e \<in> set ?wt \<Longrightarrow>
      e = Log WarnLevel ''Repo is in the middle of an update, waiting...'' \<or> e = Sleep 3"
    by (rule waiting_mem)
  have body_mem: "\<And>e. e \<in> set evs \<Longrightarrow>
      e \<noteq> Log WarnLevel ''Repo is in the middle of an update, waiting...'' \<Longrightarrow> e \<noteq> Sleep 3
      \<Longrightarrow> e \<in> set (update_body C w ?r)"
    using evs wt_mem by auto
  have a: "\<forall>h. Reset h \<in> set evs \<longrightarrow> h = commit"
  proof (intro allI impI)
    fix h assume "Reset h \<in> set evs"
    then have "Reset h \<in> set (update_body C w ?r)" by (intro body_mem) simp_all
    from update_body_resets [OF this] ref assms(3) tgt show "h = commit" by auto
  qed
  have b: "Log InfoLevel ''Changes confirmed, latest hash'' \<in> set evs
          \<longrightarrow> head_after_reset w = Some commit"
  proof
    assume "Log InfoLevel ''Changes confirmed, latest hash'' \<in> set evs"
    then have "Log InfoLevel ''Changes confirmed, latest hash'' \<in> set (update_body C w ?r)"
      by (intro body_mem) simp_all
    from update_body_confirmed [OF this] ref assms(3) tgt
    show "head_after_reset w = Some commit" by auto
  qed
  have c: "filter is_touch evs \<noteq> [] \<longrightarrow> head_after_reset w = Some commit"
  proof
    assume "filter is_touch evs \<noteq> []"
    then obtain e where e: "e \<in> set evs" and t: "is_touch e"
      by (auto simp: filter_empty_conv)
    from t have "e \<noteq> Log WarnLevel ''Repo is in the middle of an update, waiting...''"
      and "e \<noteq> Sleep 3" by auto
    with e have "e \<in> set (update_body C w ?r)" by (intro body_mem)
    from update_body_confirmed [OF this] t ref assms(3) tgt
    show "head_after_reset w = Some commit" by auto
  qed
  have d: "ssh_ok w \<and> open_ok w \<and> worktree_ok w \<and> fst (fetch_loop C w r 0) \<noteq> LoopReturn
          \<and> (\<exists>l. reference_res w ''HEAD'' = Some l \<and> l \<noteq> tagHash)
        \<longrightarrow> Reset commit \<in> set evs
            \<and> (reset_ok w commit \<and> head_after_reset w = Some commit
                 \<longrightarrow> Log InfoLevel ''Changes confirmed, latest hash'' \<in> set evs)
            \<and> (reset_ok w commit \<and> (\<exists>h. head_after_reset w = Some h \<and> h \<noteq> commit)
                 \<longrightarrow> Log ErrorLevel ''Something went wrong, hashes don't match!'' \<in> set evs)"
  proof
    assume h: "ssh_ok w \<and> open_ok w \<and> worktree_ok w \<and> fst (fetch_loop C w r 0) \<noteq> LoopReturn
          \<and> (\<exists>l. reference_res w ''HEAD'' = Some l \<and> l \<noteq> tagHash)"
    then obtain l where l: "reference_res w ''HEAD'' = Some l" "l \<noteq> tagHash" by blast
    have ex: "fst (fetch_loop C w ?r 0) \<noteq> LoopReturn"
      using h fetch_loop_exit_repo [of C w ?r 0 r] by simp
    have rr: "reference_res w (update_ref ?r) = Some tagHash" using ref assms(3) by simp
    from update_body_reaches_reset [OF _ _ _ ex rr l] h tgt obtain pre where
      p: "update_body C w ?r = pre @ [Reset commit] @
            (if \<not> reset_ok w commit then [Log ErrorLevel ''Failed to hard reset work tree'']
             else confirm_reset w ?r commit)" by auto
    have 1: "Reset commit \<in> set evs" using evs p by simp
    have 2: "reset_ok w commit \<and> head_after_reset w = Some commit
                 \<longrightarrow> Log InfoLevel ''Changes confirmed, latest hash'' \<in> set evs"
      using evs p by (simp add: confirm_reset_def)
    have 3: "reset_ok w commit \<and> (\<exists>h. head_after_reset w = Some h \<and> h \<noteq> commit)
                 \<longrightarrow> Log ErrorLevel ''Something went wrong, hashes don't match!'' \<in> set evs"
      using evs p by (auto simp: confirm_reset_def)
    from 1 2 3 show "Reset commit \<in> set evs
            \<and> (reset_ok w commit \<and> head_after_reset w = Some commit
                 \<longrightarrow> Log InfoLevel ''Changes confirmed, latest hash'' \<in> set evs)
            \<and> (reset_ok w commit \<and> (\<exists>h. head_after_reset w = Some h \<and> h \<noteq> commit)
                 \<longrightarrow> Log ErrorLevel ''Something went wrong, hashes don't match!'' \<in> set evs)"
      by blast
  qed
  from u a b c d show ?thesis by blast
qed

theorem C7_witness:
  "\<not> Busy hook_tag \<and> LabelType hook_tag = ''tag''
   \<and> reference_res tag_moved_world (''refs/tags/'' @ Label hook_tag) = Some 100
   \<and> tag_object tag_moved_world 100 = Some 42
   \<and> reference_res tag_moved_world ''HEAD'' = Some 5
   \<and> head_after_reset tag_moved_world = Some 42
   \<and> (\<exists>r' evs. update default_config tag_moved_world hook_tag = Some (r', evs)
         \<and> Reset 42 \<in> set evs
         \<and> Reset 100 \<notin> set evs
         \<and> Log InfoLevel ''Changes confirmed, latest hash'' \<in> set evs)"
proof -
  have h1: "\<not> Busy hook_tag \<or> (\<exists>j. \<not> busy_after_sleep tag_moved_world j)"
    by (simp add: hook_tag_def mk_repo_def)
  have h2: "LabelType hook_tag = ''tag''"
    by (simp add: hook_tag_def mk_repo_def)
  have h3: "reference_res tag_moved_world (''refs/tags/'' @ Label hook_tag) = Some 100"
    by (simp add: hook_tag_def mk_repo_def tag_moved_world_def good_world_def)
  have h4: "tag_object tag_moved_world 100 = Some 42"
    by (simp add: tag_moved_world_def good_world_def)
  have h5: "reference_res tag_moved_world ''HEAD'' = Some 5"
    by (simp add: tag_moved_world_def good_world_def)
  have h6: "head_after_reset tag_moved_world = Some 42"
    by (simp add: tag_moved_world_def good_world_def)
  have h7: "ssh_ok tag_moved_world \<and> open_ok tag_moved_world \<and> worktree_ok tag_moved_world
      \<and> reset_ok tag_moved_world 42"
    by (simp add: tag_moved_world_def good_world_def)
  have h8: "fst (fetch_loop default_config tag_moved_world hook_tag 0) \<noteq> LoopReturn"
    by (simp add: fetch_loop.simps default_config_def tag_moved_world_def good_world_def)
  have h9: "\<exists>l. reference_res tag_moved_world ''HEAD'' = Some l \<and> l \<noteq> 100"
    using h5 by simp
  from C7_annotated_tag_target [OF h1 h2 h3 h4, of default_config]
  obtain r' evs where u: "update default_config tag_moved_world hook_tag = Some (r', evs)"
    and a: "\<forall>h. Reset h \<in> set evs \<longrightarrow> h = 42"
    and d: "ssh_ok tag_moved_world \<and> open_ok tag_moved_world \<and> worktree_ok tag_moved_world
          \<and> fst (fetch_loop default_config tag_moved_world hook_tag 0) \<noteq> LoopReturn
          \<and> (\<exists>l. reference_res tag_moved_world ''HEAD'' = Some l \<and> l \<noteq> 100)
        \<longrightarrow> Reset 42 \<in> set evs
            \<and> (reset_ok tag_moved_world 42 \<and> head_after_reset tag_moved_world = Some 42
                 \<longrightarrow> Log InfoLevel ''Changes confirmed, latest hash'' \<in> set evs)
            \<and> (reset_ok tag_moved_world 42
                  \<and> (\<exists>h. head_after_reset tag_moved_world = Some h \<and> h \<noteq> 42)
                 \<longrightarrow> Log ErrorLevel ''Something went wrong, hashes don't match!'' \<in> set evs)"
    by blast
  from d h7 h8 h9 h6 have r: "Reset 42 \<in> set evs"
    and c: "Log InfoLevel ''Changes confirmed, latest hash'' \<in> set evs" by blast+
  from a have n: "Reset 100 \<notin> set evs" by auto
  from h1 h2 h3 h4 h5 h6 u r n c show ?thesis
    by (simp add: hook_tag_def mk_repo_def)
qed

text \<open>
  C8. If \<open>update\<close> has reset to \<open>t\<close> without error and \<open>HEAD\<close> is then at another
  hash, the operation ends with the error line about the mismatch and two debug lines:
  nothing comes after them, so there is no second reset and no retry, and the trigger
  file is not touched.
\<close>

theorem C8_post_reset_mismatch:
  assumes "update C w r = Some (r', evs)" and "Reset t \<in> set evs" and "reset_ok w t"
    and "head_after_reset w = Some h" and "h \<noteq> t"
  shows "(\<exists>pre. evs = pre @
            [Reset t, Log InfoLevel ''Hard reset successful, confirming changes....'',
             Reference ''HEAD'', Log ErrorLevel ''Something went wrong, hashes don't match!'',
             Log DebugLevel ''Remote hash'', Log DebugLevel ''Local hash''])
         \<and> length (filter is_reset evs) = 1
         \<and> filter is_touch evs = []
         \<and> \<not> Busy r'"
proof -
  from update_shape [OF assms(1)] obtain n where r': "r' = r\<lparr>Busy := False\<rparr>"
    and evs: "evs = concat (replicate n
                  [Log WarnLevel ''Repo is in the middle of an update, waiting...'', Sleep 3])
                @ update_body C w (r\<lparr>Busy := True\<rparr>)"
    by auto
  let ?wt = "concat (replicate n
                  [Log WarnLevel ''Repo is in the middle of an update, waiting...'', Sleep 3])"
  have w2: "filter is_reset ?wt = []" by (simp add: filter_waiting)
  have w3: "filter is_touch ?wt = []" by (simp add: filter_waiting)
  have "Reset t \<notin> set ?wt"
    using w2 by (metis filter_empty_conv is_reset.simps(1))
  with assms(2) evs have "Reset t \<in> set (update_body C w (r\<lparr>Busy := True\<rparr>))" by auto
  from update_body_mismatch [OF this assms(3-5)] obtain pre where
    p: "update_body C w (r\<lparr>Busy := True\<rparr>) = pre @ mismatch_suffix t"
    and p2: "filter is_reset pre = []" and p3: "filter is_touch pre = []" by blast
  have e: "evs = (?wt @ pre) @ mismatch_suffix t" using evs p by simp
  have "\<exists>pre. evs = pre @
            [Reset t, Log InfoLevel ''Hard reset successful, confirming changes....'',
             Reference ''HEAD'', Log ErrorLevel ''Something went wrong, hashes don't match!'',
             Log DebugLevel ''Remote hash'', Log DebugLevel ''Local hash'']"
    using e unfolding mismatch_suffix_def by blast
  moreover have "length (filter is_reset evs) = 1"
    using e w2 p2 by (simp add: mismatch_suffix_def)
  moreover have "filter is_touch evs = []"
    using e w3 p3 by (simp add: mismatch_suffix_def)
  moreover have "\<not> Busy r'" using r' by simp
  ultimately show ?thesis by blast
qed

theorem C8_witness:
  "reset_ok mismatch_world 7 \<and> head_after_reset mismatch_world = Some 5
   \<and> (\<exists>r' evs. update default_config mismatch_world hook_branch = Some (r', evs)
         \<and> Reset 7 \<in> set evs
         \<and> (\<exists>pre. evs = pre @
              [Reset 7, Log InfoLevel ''Hard reset successful, confirming changes....'',
               Reference ''HEAD'', Log ErrorLevel ''Something went wrong, hashes don't match!'',
               Log DebugLevel ''Remote hash'', Log DebugLevel ''Local hash''])
         \<and> length (filter is_reset evs) = 1
         \<and> filter is_touch evs = []
         \<and> \<not> Busy r')"
proof -
  have u: "update default_config mismatch_world hook_branch =
      Some (hook_branch,
        [NewPublicKeysFromFile ''/k'', PlainOpen ''/srv/r'', Worktree,
         Log InfoLevel ''Fetch attempt: '', Fetch ''origin'',
         Log InfoLevel ''Fetched new updates'',
         Reference ''refs/remotes/origin/master'', TagObject 7,
         Reference ''HEAD'', Reset 7,
         Log InfoLevel ''Hard reset successful, confirming changes....'',
         Reference ''HEAD'', Log ErrorLevel ''Something went wrong, hashes don't match!'',
         Log DebugLevel ''Remote hash'', Log DebugLevel ''Local hash''])"
    by (simp add: sync_defs)
  have m: "Reset 7 \<in> set
        [NewPublicKeysFromFile ''/k'', PlainOpen ''/srv/r'', Worktree,
         Log InfoLevel ''Fetch attempt: '', Fetch ''origin'',
         Log InfoLevel ''Fetched new updates'',
         Reference ''refs/remotes/origin/master'', TagObject 7,
         Reference ''HEAD'', Reset 7,
         Log InfoLevel ''Hard reset successful, confirming changes....'',
         Reference ''HEAD'', Log ErrorLevel ''Something went wrong, hashes don't match!'',
         Log DebugLevel ''Remote hash'', Log DebugLevel ''Local hash'']"
    by simp
  have h3: "reset_ok mismatch_world 7" by (simp add: mismatch_world_def good_world_def)
  have h4: "head_after_reset mismatch_world = Some 5"
    by (simp add: mismatch_world_def good_world_def)
  have h5: "(5::nat) \<noteq> 7" by simp
  from C8_post_reset_mismatch [OF u m h3 h4 h5] u m h3 h4 show ?thesis
    by blast
qed

text \<open>
  C9. \<open>update\<close> and \<open>clone\<close> return exactly when the wait for the busy flag ends
  (the flag is free at the start or after some sleep). In every run that returns, for
  every answer of the outside world, the flag is set while the body runs (the record
  the body works on is \<open>r\<close> with \<open>Busy = true\<close>), the body is left by the return
  statement that \<open>update_exit_of\<close> or \<open>clone_exit_of\<close> names, after the last event
  that belongs to it, and the deferred \<open>finished\<close> then clears the flag: the record
  the operation leaves is the one the body held with \<open>Busy = false\<close>. Every return
  statement is taken in some world (for the return at "already up to date" the retry
  count must be positive), so this covers each of them.
\<close>

theorem C9_busy_cleared:
  "((\<exists>res. update C w r = Some res) \<longleftrightarrow> (\<not> Busy r \<or> (\<exists>j. \<not> busy_after_sleep w j)))
   \<and> ((\<exists>res. clone w r = Some res) \<longleftrightarrow> (\<not> Busy r \<or> (\<exists>j. \<not> busy_after_sleep w j)))
   \<and> (\<forall>r' evs. update C w r = Some (r', evs) \<longrightarrow> \<not> Busy r')
   \<and> (\<forall>r' evs. clone w r = Some (r', evs) \<longrightarrow> \<not> Busy r')
   \<and> ((\<exists>x. update_run C w r = Some x) \<longleftrightarrow> (\<not> Busy r \<or> (\<exists>j. \<not> busy_after_sleep w j)))
   \<and> ((\<exists>x. clone_run w r = Some x) \<longleftrightarrow> (\<not> Busy r \<or> (\<exists>j. \<not> busy_after_sleep w j)))
   \<and> (\<forall>x. update_run C w r = Some x \<longrightarrow>
         held x = r\<lparr>Busy := True\<rparr> \<and> Busy (held x)
         \<and> final x = finished (held x) \<and> \<not> Busy (final x)
         \<and> exit_by x = update_exit_of C w (held x)
         \<and> last (events x) = update_last_event w (held x) (exit_by x)
         \<and> update C w r = Some (final x, events x))
   \<and> (\<forall>x. clone_run w r = Some x \<longrightarrow>
         held x = r\<lparr>Busy := True\<rparr> \<and> Busy (held x)
         \<and> final x = finished (held x) \<and> \<not> Busy (final x)
         \<and> exit_by x = clone_exit_of w (held x)
         \<and> last (events x) = clone_last_event w (held x) (exit_by x)
         \<and> clone w r = Some (final x, events x))
   \<and> (0 < RetryCount C \<longrightarrow> (\<forall>p. \<exists>w'. update_exit_of C w' r = p))
   \<and> (\<forall>p. \<exists>w'. clone_exit_of w' r = p)"
proof (intro conjI allI impI)
  show "(\<exists>res. update C w r = Some res) \<longleftrightarrow> (\<not> Busy r \<or> (\<exists>j. \<not> busy_after_sleep w j))"
    by (rule update_returns_iff)
  show "(\<exists>res. clone w r = Some res) \<longleftrightarrow> (\<not> Busy r \<or> (\<exists>j. \<not> busy_after_sleep w j))"
    by (rule clone_returns_iff)
  show "(\<exists>x. update_run C w r = Some x) \<longleftrightarrow> (\<not> Busy r \<or> (\<exists>j. \<not> busy_after_sleep w j))"
    using update_run_returns_iff update_returns_iff by simp
  show "(\<exists>x. clone_run w r = Some x) \<longleftrightarrow> (\<not> Busy r \<or> (\<exists>j. \<not> busy_after_sleep w j))"
    using clone_run_returns_iff clone_returns_iff by simp
next
  fix r' evs assume "update C w r = Some (r', evs)"
  from update_shape [OF this] show "\<not> Busy r'" by simp
next
  fix r' evs assume "clone w r = Some (r', evs)"
  from clone_shape [OF this] show "\<not> Busy r'" by simp
next
  fix x assume a: "update_run C w r = Some x"
  note f = update_run_flag [OF a]
  from f show "held x = r\<lparr>Busy := True\<rparr>" by blast
  from f show "Busy (held x)" by blast
  from f show "final x = finished (held x)" by blast
  from f show "\<not> Busy (final x)" by blast
  from f show "exit_by x = update_exit_of C w (held x)" by blast
  from f show "last (events x) = update_last_event w (held x) (exit_by x)" by blast
  from a show "update C w r = Some (final x, events x)" by (simp add: update_def)
next
  fix x assume a: "clone_run w r = Some x"
  note f = clone_run_flag [OF a]
  from f show "held x = r\<lparr>Busy := True\<rparr>" by blast
  from f show "Busy (held x)" by blast
  from f show "final x = finished (held x)" by blast
  from f show "\<not> Busy (final x)" by blast
  from f show "exit_by x = clone_exit_of w (held x)" by blast
  from f show "last (events x) = clone_last_event w (held x) (exit_by x)" by blast
  from a show "clone w r = Some (final x, events x)" by (simp add: clone_def)
next
  fix p assume "0 < RetryCount C"
  then show "\<exists>w'. update_exit_of C w' r = p" by (rule update_exits_reachable)
next
  fix p show "\<exists>w'. clone_exit_of w' r = p" by (rule clone_exits_reachable)
qed

theorem C9_witness:
  "\<not> Busy hook_branch \<and> 0 < RetryCount default_config
   \<and> (\<exists>x. update_run default_config mismatch_world hook_branch = Some x
         \<and> Busy (held x) \<and> \<not> Busy (final x) \<and> final x = finished (held x)
         \<and> exit_by x = VerificationMismatch
         \<and> last (events x) = Log DebugLevel ''Local hash''
         \<and> update default_config mismatch_world hook_branch = Some (final x, events x))
   \<and> (\<exists>x. clone_run (good_world\<lparr>clone_ok := False\<rparr>) hook_branch = Some x
         \<and> Busy (held x) \<and> \<not> Busy (final x) \<and> final x = finished (held x)
         \<and> exit_by x = CloneFailure
         \<and> last (events x) = Log ErrorLevel ''Failed to clone repository''
         \<and> clone (good_world\<lparr>clone_ok := False\<rparr>) hook_branch = Some (final x, events x))
   \<and> (\<exists>w'. update_exit_of default_config w' hook_branch = ResetFailure)
   \<and> (\<exists>w'. clone_exit_of w' hook_branch = CloneSSHAuthFailure)"
proof -
  have nb: "\<not> Busy hook_branch" by (simp add: hook_branch_def mk_repo_def)
  have rc: "0 < RetryCount default_config" by (simp add: default_config_def)
  note c1 = C9_busy_cleared [of default_config mismatch_world hook_branch]
  note c2 = C9_busy_cleared [of default_config "good_world\<lparr>clone_ok := False\<rparr>" hook_branch]
  from c1 nb obtain x where x: "update_run default_config mismatch_world hook_branch = Some x"
    by blast
  with c1 have fx: "held x = hook_branch\<lparr>Busy := True\<rparr>" "Busy (held x)"
    "final x = finished (held x)" "\<not> Busy (final x)"
    "exit_by x = update_exit_of default_config mismatch_world (held x)"
    "last (events x) = update_last_event mismatch_world (held x) (exit_by x)"
    "update default_config mismatch_world hook_branch = Some (final x, events x)"
    by blast+
  have "update_exit_of default_config mismatch_world (hook_branch\<lparr>Busy := True\<rparr>)
      = VerificationMismatch"
    by (simp add: update_exit_of_def mismatch_world_def good_world_def default_config_def
        fetch_loop.simps update_ref_def hook_branch_def mk_repo_def target_of_def)
  with fx have ex: "exit_by x = VerificationMismatch"
    and lx: "last (events x) = Log DebugLevel ''Local hash''" by simp_all
  from c2 nb obtain y where
    y: "clone_run (good_world\<lparr>clone_ok := False\<rparr>) hook_branch = Some y" by blast
  with c2 have fy: "held y = hook_branch\<lparr>Busy := True\<rparr>" "Busy (held y)"
    "final y = finished (held y)" "\<not> Busy (final y)"
    "exit_by y = clone_exit_of (good_world\<lparr>clone_ok := False\<rparr>) (held y)"
    "last (events y) = clone_last_event (good_world\<lparr>clone_ok := False\<rparr>) (held y) (exit_by y)"
    "clone (good_world\<lparr>clone_ok := False\<rparr>) hook_branch = Some (final y, events y)"
    by blast+
  have "clone_exit_of (good_world\<lparr>clone_ok := False\<rparr>) (hook_branch\<lparr>Busy := True\<rparr>)
      = CloneFailure"
    by (simp add: clone_exit_of_def good_world_def)
  with fy have ey: "exit_by y = CloneFailure"
    and ly: "last (events y) = Log ErrorLevel ''Failed to clone repository''" by simp_all
  from c1 rc have r1: "\<exists>w'. update_exit_of default_config w' hook_branch = ResetFailure"
    by blast
  from c1 have r2: "\<exists>w'. clone_exit_of w' hook_branch = CloneSSHAuthFailure" by blast
  from nb rc x fx(2-4,7) ex lx y fy(2-4,7) ey ly r1 r2 show ?thesis by blast
qed

text \<open>
  C2 says that \<open>update\<close> aborts when every fetch attempt has failed with a genuine
  error. The loop is then left because \<open>i < C.RetryCount\<close> is false, and the code
  after the loop does not look at \<open>err\<close>: with the default retry count 1 and a fetch
  that fails, \<open>update\<close> logs "Fetched new updates", resolves the reference, resets
  the worktree and touches the trigger file.
\<close>

theorem C2_fetch_failures_fall_through:
  "RetryCount default_config = 1
   \<and> fetch_result_at failing_fetch_world 0 = FetchFailed
   \<and> update default_config failing_fetch_world hook_branch =
       Some (hook_branch,
         [NewPublicKeysFromFile ''/k'', PlainOpen ''/srv/r'', Worktree,
          Log InfoLevel ''Fetch attempt: '', Fetch ''origin'',
          Log ErrorLevel ''Failed to fetch updates'', Sleep 10,
          Log InfoLevel ''Fetched new updates'',
          Reference ''refs/remotes/origin/master'', TagObject 7,
          Reference ''HEAD'', Reset 7,
          Log InfoLevel ''Hard reset successful, confirming changes....'',
          Reference ''HEAD'', Log InfoLevel ''Changes confirmed, latest hash'',
          Chtimes ''/tmp/t'',
          Log InfoLevel ''Successfully updated trigger file''])"
  by (simp add: sync_defs)

text \<open>
  C4 says that the resolved target hash is compared with the local \<open>HEAD\<close>. The code
  compares \<open>remoteRef.Hash()\<close>, which for an annotated tag is the hash of the tag
  object: with \<open>HEAD\<close> already at the tag's target commit 42, \<open>update\<close> does not
  return at the comparison but resets to 42 and touches the trigger file.
\<close>

theorem C4_compares_tag_object_hash:
  "reference_res tag_at_head_world ''refs/tags/v1'' = Some 100
   \<and> tag_object tag_at_head_world 100 = Some 42
   \<and> reference_res tag_at_head_world ''HEAD'' = Some 42
   \<and> update default_config tag_at_head_world hook_tag =
       Some (hook_tag,
         [NewPublicKeysFromFile ''/k'', PlainOpen ''/srv/r'', Worktree,
          Log InfoLevel ''Fetch attempt: '', Fetch ''origin'',
          Log InfoLevel ''Fetched new updates'', Reference ''refs/tags/v1'',
          TagObject 100, Log InfoLevel ''Annotated tag hash'',
          Log InfoLevel ''Annotated tag target hash'', Reference ''HEAD'',
          Reset 42,
          Log InfoLevel ''Hard reset successful, confirming changes....'',
          Reference ''HEAD'', Log InfoLevel ''Changes confirmed, latest hash'',
          Chtimes ''/tmp/t'',
          Log InfoLevel ''Successfully updated trigger file''])"
  by (simp add: sync_defs)

subsection \<open>Claims about concurrent goroutines, the dispatcher and configuration reload\<close>

text \<open>
  C1 says that two operations on one repository never overlap. Two goroutines that both
  read \<open>r.Busy\<close> as false before either sets it both go on: after the schedule
  0, 1, 0, 1 both are executing their body.
\<close>

theorem C1_overlap:
  "run_schedule [0, 1, 0, 1] (False, [AtLoopHead, AtLoopHead]) = (True, [Working, Working])
   \<and> executing (run_schedule [0, 1, 0, 1] (False, [AtLoopHead, AtLoopHead])) = 2
   \<and> run_schedule [0, 1, 0, 1, 0] (False, [AtLoopHead, AtLoopHead]) = (False, [Returned, Working])"
  by (simp add: run_schedule_def sched_step_def executing_def)

text \<open>
  When the first goroutine sets the flag before the second reads it, the second sleeps
  until the flag is cleared and only then starts its body.
\<close>

lemma second_goroutine_waits:
  "run_schedule [0, 0, 1, 1] (False, [AtLoopHead, AtLoopHead]) = (True, [Working, AtLoopHead])
   \<and> run_schedule [0, 0, 1, 1, 0, 1, 1] (False, [AtLoopHead, AtLoopHead])
       = (True, [Returned, Working])"
  by (simp add: run_schedule_def sched_step_def)

text \<open>
  C3 says that the number of executing jobs is bounded by the limit of the active
  configuration, also after a reload. The channel \<open>sem\<close> is made once, with the
  limit at start (5); a reload to the limit 1 writes 1 to \<open>DataPasser.threads\<close>, which
  nothing reads afterwards, and two jobs then hold a permit at once.
\<close>

theorem C3_limit_fixed_at_start:
  "main_start 0 default_config =
     \<lparr>global_C = default_config, mutex = False, passer_threads = 5, sem_cap = 5, sem_len = 0\<rparr>
   \<and> onConfigChange (\<lambda>k. False) 1000000000 (Some (default_config\<lparr>Threads := 1\<rparr>))
        (main_start 0 default_config) =
      Some (Installed,
        \<lparr>global_C = default_config\<lparr>Threads := 1, LastUpdate := 1000000000\<rparr>,
         mutex = False, passer_threads = 1, sem_cap = 5, sem_len = 0\<rparr>)
   \<and> acquire (acquire
        \<lparr>global_C = default_config\<lparr>Threads := 1, LastUpdate := 1000000000\<rparr>,
         mutex = False, passer_threads = 1, sem_cap = 5, sem_len = 0\<rparr>) =
        \<lparr>global_C = default_config\<lparr>Threads := 1, LastUpdate := 1000000000\<rparr>,
         mutex = False, passer_threads = 1, sem_cap = 5, sem_len = 2\<rparr>"
  by (simp add: main_start_def refreshTasks_def setRepoDefaults_def default_config_def
      onConfigChange_def wait_idle.simps acquire_def)

text \<open>
  C5 says that every notification that arrives later than the debounce window after the
  last installed update reloads the configuration. A notification inside the window
  returns with the mutex locked, and every later one waits at \<open>mutex.Lock()\<close> for
  ever: of notifications at 1 s, 1.1 s and 10 s after start, the first installs, the
  second is dropped and the third, nine seconds after the installation, is blocked.
\<close>

theorem C5_debounce_leaves_mutex_locked:
  "map_option fst
     (notifications
        [(1000000000, Some default_config), (1100000000, Some default_config),
         (10000000000, Some default_config)]
        (main_start 0 default_config))
   = Some [Installed, Debounced, BlockedOnLock]"
  by (simp add: main_start_def refreshTasks_def setRepoDefaults_def default_config_def
      onConfigChange_def wait_idle.simps)

subsection \<open>Properties of the registry\<close>

lemma cleanURL_nonempty:
  "url \<noteq> [] \<Longrightarrow> cleanURL url = Inr (if last url = CHR ''/'' then butlast url else url)"
  by (simp add: cleanURL_def last_conv_nth butlast_conv_take)

lemma FindRepo_from_empty_path:
  "FindRepo_from r rs [] = (if rs = [] then Inr (0, False) else Inl IndexOutOfRange)"
  by (cases rs) (simp_all add: cleanURL_def)

lemma FindRepo_from_found:
  assumes "cleanURL path = Inr p" and "i < length rs" and "Path (rs ! i) = p"
    and "\<forall>j<i. Path (rs ! j) \<noteq> p"
  shows "FindRepo_from r rs path = Inr (r + i, True)"
  using assms
proof (induction rs arbitrary: r i)
  case Nil
  then show ?case by simp
next
  case (Cons a rs)
  show ?case
  proof (cases i)
    case 0
    with Cons.prems show ?thesis by simp
  next
    case (Suc k)
    have hd_ne: "Path a \<noteq> p"
      using Cons.prems(4) Suc by (metis nth_Cons_0 zero_less_Suc)
    have later: "\<forall>j<k. Path (rs ! j) \<noteq> p"
      using Cons.prems(4) Suc by (metis Suc_less_eq nth_Cons_Suc)
    have "FindRepo_from (Suc r) rs path = Inr (Suc r + k, True)"
      using Cons.IH [of k "Suc r"] Cons.prems(1,2,3) later Suc by simp
    with hd_ne Cons.prems(1) Suc show ?thesis by simp
  qed
qed

lemma FindRepo_from_not_found:
  assumes "cleanURL path = Inr p" and "\<forall>j<length rs. Path (rs ! j) \<noteq> p"
  shows "FindRepo_from r rs path = Inr (0, False)"
  using assms
proof (induction rs arbitrary: r)
  case Nil
  then show ?case by simp
next
  case (Cons a rs)
  have hd_ne: "Path a \<noteq> p"
    using Cons.prems(2) by (metis length_Cons nth_Cons_0 zero_less_Suc)
  have later: "\<forall>j<length rs. Path (rs ! j) \<noteq> p"
    using Cons.prems(2) by (metis Suc_less_eq length_Cons nth_Cons_Suc)
  show ?case
    using Cons.IH [OF Cons.prems(1) later] hd_ne Cons.prems(1) by simp
qed

lemma FindRepo_from_index:
  "FindRepo_from r rs path = Inr (i, True) \<Longrightarrow> r \<le> i \<and> i < r + length rs"
proof (induction rs arbitrary: r)
  case Nil
  then show ?case by simp
next
  case (Cons a rs)
  show ?case
  proof (cases "cleanURL path")
    case (Inl e)
    with Cons.prems show ?thesis by simp
  next
    case (Inr p)
    show ?thesis
    proof (cases "Path a = p")
      case True
      with Inr Cons.prems show ?thesis by simp
    next
      case False
      with Inr Cons.prems have "FindRepo_from (Suc r) rs path = Inr (i, True)" by simp
      from Cons.IH [OF this] show ?thesis by simp
    qed
  qed
qed

lemma FindRepo_from_no_panic:
  "cleanURL path = Inr p \<Longrightarrow> \<exists>res. FindRepo_from r rs path = Inr res"
  by (induction rs arbitrary: r) auto

lemma handleFunc_empty_path:
  assumes "url_path rq = []"
  shows "handleFunc c rq =
     (if Repos c = [] then Inr ([Log WarnLevel ''Repository not found for path''], [])
      else Inl IndexOutOfRange)"
  using assms by (simp add: handleFunc_def FindRepo_def FindRepo_from_empty_path)

lemma handleFunc_nonempty_path:
  assumes "url_path rq \<noteq> []"
  shows "handleFunc c rq \<noteq> Inl IndexOutOfRange"
proof -
  from assms obtain p where p: "cleanURL (url_path rq) = Inr p"
    using cleanURL_nonempty by blast
  from FindRepo_from_no_panic [OF p] obtain i ok where
    f: "FindRepo c (url_path rq) = Inr (i, ok)"
    by (metis FindRepo_def surj_pair)
  show ?thesis
  proof (cases ok)
    case False
    with f show ?thesis by (simp add: handleFunc_def)
  next
    case True
    with f have "FindRepo_from 0 (Repos c) (url_path rq) = Inr (i, True)"
      by (simp add: FindRepo_def)
    from FindRepo_from_index [OF this] have "i < length (Repos c)" by simp
    with f True show ?thesis
      by (simp add: handleFunc_def split: option.splits webhook.splits)
  qed
qed

text \<open>
  C10, as the code has it. \<open>cleanURL\<close> panics on the empty string and on every other
  string removes one trailing slash if there is one. On a non-empty path \<open>FindRepo\<close>
  returns the index of the first repository whose \<open>Path\<close> is the cleaned path, and
  \<open>(0, false)\<close> when there is none. On the empty path \<open>FindRepo\<close>, and hence the
  webhook handler, panics exactly when the repository list is non-empty: with no
  repository the loop body, and so \<open>cleanURL\<close>, never runs, \<open>FindRepo\<close> returns
  \<open>(0, false)\<close> and the handler logs that the repository was not found and returns.
  On a non-empty path the handler never panics with an index out of range.
\<close>

theorem C10_cleanURL_FindRepo:
  "cleanURL [] = Inl IndexOutOfRange
   \<and> (url \<noteq> [] \<longrightarrow>
        cleanURL url = Inr (if last url = CHR ''/'' then butlast url else url))
   \<and> (path \<noteq> [] \<and> i < length (Repos c)
        \<and> Inr (Path (Repos c ! i)) = cleanURL path
        \<and> (\<forall>j<i. Inr (Path (Repos c ! j)) \<noteq> cleanURL path)
      \<longrightarrow> FindRepo c path = Inr (i, True))
   \<and> (path \<noteq> [] \<and> (\<forall>j<length (Repos c). Inr (Path (Repos c ! j)) \<noteq> cleanURL path)
      \<longrightarrow> FindRepo c path = Inr (0, False))
   \<and> FindRepo c [] = (if Repos c = [] then Inr (0, False) else Inl IndexOutOfRange)
   \<and> (url_path rq = [] \<longrightarrow>
        handleFunc c rq =
          (if Repos c = [] then Inr ([Log WarnLevel ''Repository not found for path''], [])
           else Inl IndexOutOfRange))
   \<and> (url_path rq \<noteq> [] \<longrightarrow> handleFunc c rq \<noteq> Inl IndexOutOfRange)"
proof (intro conjI impI)
  show "cleanURL [] = Inl IndexOutOfRange"
    by (simp add: cleanURL_def)
next
  assume "url \<noteq> []"
  then show "cleanURL url = Inr (if last url = CHR ''/'' then butlast url else url)"
    by (rule cleanURL_nonempty)
next
  assume a: "path \<noteq> [] \<and> i < length (Repos c)
        \<and> Inr (Path (Repos c ! i)) = cleanURL path
        \<and> (\<forall>j<i. Inr (Path (Repos c ! j)) \<noteq> cleanURL path)"
  obtain p where p: "cleanURL path = Inr p"
    using a cleanURL_nonempty by blast
  have "FindRepo_from 0 (Repos c) path = Inr (0 + i, True)"
    using a p by (intro FindRepo_from_found [OF p]) auto
  then show "FindRepo c path = Inr (i, True)"
    by (simp add: FindRepo_def)
next
  assume a: "path \<noteq> [] \<and> (\<forall>j<length (Repos c). Inr (Path (Repos c ! j)) \<noteq> cleanURL path)"
  obtain p where p: "cleanURL path = Inr p"
    using a cleanURL_nonempty by blast
  have "FindRepo_from 0 (Repos c) path = Inr (0, False)"
    using a p by (intro FindRepo_from_not_found [OF p]) auto
  then show "FindRepo c path = Inr (0, False)"
    by (simp add: FindRepo_def)
next
  show "FindRepo c [] = (if Repos c = [] then Inr (0, False) else Inl IndexOutOfRange)"
    by (simp add: FindRepo_def FindRepo_from_empty_path)
next
  assume "url_path rq = []"
  then show "handleFunc c rq =
          (if Repos c = [] then Inr ([Log WarnLevel ''Repository not found for path''], [])
           else Inl IndexOutOfRange)"
    by (rule handleFunc_empty_path)
next
  assume "url_path rq \<noteq> []"
  then show "handleFunc c rq \<noteq> Inl IndexOutOfRange"
    by (rule handleFunc_nonempty_path)
qed

theorem C10_witness:
  "cleanURL ''/hook/'' = Inr ''/hook''
   \<and> FindRepo (default_config\<lparr>Repos := [mk_repo ''/other'' ''master'' ''branch'' [],
                                      mk_repo ''/hook'' ''master'' ''branch'' []]\<rparr>) ''/hook/''
       = Inr (1, True)
   \<and> FindRepo (default_config\<lparr>Repos := [mk_repo ''/other'' ''master'' ''branch'' []]\<rparr>) ''/hook/''
       = Inr (0, False)
   \<and> FindRepo (default_config\<lparr>Repos := [mk_repo ''/other'' ''master'' ''branch'' []]\<rparr>) []
       = Inl IndexOutOfRange
   \<and> handleFunc (default_config\<lparr>Repos := [mk_repo ''/other'' ''master'' ''branch'' []]\<rparr>)
       (push_request []) = Inl IndexOutOfRange
   \<and> handleFunc default_config (push_request [])
       = Inr ([Log WarnLevel ''Repository not found for path''], [])
   \<and> handleFunc (default_config\<lparr>Repos := [mk_repo ''/other'' ''master'' ''branch'' [],
                                        mk_repo ''/hook'' ''master'' ''branch'' []]\<rparr>)
       (push_request ''/hook/'') = Inr ([], [\<lparr>repo_idx = 1, jobType = ''update''\<rparr>])"
  using C10_cleanURL_FindRepo [of "''/hook/''"
      "''/hook/''" 1
      "default_config\<lparr>Repos := [mk_repo ''/other'' ''master'' ''branch'' [],
                                mk_repo ''/hook'' ''master'' ''branch'' []]\<rparr>"
      "push_request ''/hook/''"]
    C10_cleanURL_FindRepo [of "''/hook/''"
      "''/hook/''" 0
      "default_config\<lparr>Repos := [mk_repo ''/other'' ''master'' ''branch'' []]\<rparr>"
      "push_request []"]
    C10_cleanURL_FindRepo [of "''/hook/''"
      "[]" 0
      "default_config\<lparr>Repos := [mk_repo ''/other'' ''master'' ''branch'' []]\<rparr>"
      "push_request []"]
    C10_cleanURL_FindRepo [of "''/hook/''" "[]" 0 default_config "push_request []"]
  by (simp add: cleanURL_def mk_repo_def default_config_def push_request_def
      handleFunc_def FindRepo_def TrimPrefix_def)

text \<open>
  The claim as written says that \<open>FindRepo\<close> and the handler are undefined on the empty
  path. With an empty repository list both return normally.
\<close>

theorem C10_counterexample:
  "FindRepo default_config [] = Inr (0, False)
   \<and> handleFunc default_config (push_request [])
       = Inr ([Log WarnLevel ''Repository not found for path''], [])"
  by (simp add: FindRepo_def default_config_def handleFunc_def push_request_def)

end
